(* ===== verification/Prelude.thy ===== *)
theory Prelude
  imports Main "HOL-Library.Word"
begin

text \<open>
  Shared vocabulary of the development.

  \<^item> bytes, and the big-endian and little-endian 16/32-bit fields of the wire and file formats;
  \<^item> \<open>peek\<close>: the read of one byte at an offset of a \<open>std::string\<close> buffer;
  \<^item> \<open>find_sub\<close>: \<open>std::string::find\<close> and \<open>strstr\<close>;
  \<^item> \<open>outcome\<close> and \<open>prog\<close>: a C++ call as a function of the state.  It returns a value, throws a
    \<open>ChannelException\<close>, reads out of bounds (undefined behaviour), or is still running when the
    observed environment behaviour ends;
  \<^item> \<open>loop\<close>: C loops over \<open>prog\<close>, with the unfolding and invariant rules the components use.

  The collections \<open>prog_simps\<close>, \<open>hoare_rules\<close> and \<open>safe_rules\<close> carry the component proofs.
\<close>

unbundle bit_operations_syntax

named_theorems prog_simps "unfolding of the sequencing combinators"
named_theorems hoare_rules "proof rules for the sequencing combinators"
named_theorems safe_rules "programs that never run into undefined behaviour"

section \<open>Bytes and multi-byte fields\<close>

type_synonym byte = "8 word"
type_synonym u16 = "16 word"
type_synonym u32 = "32 word"
type_synonym packet = "byte list"

definition be16 :: "u16 \<Rightarrow> byte list" where
  "be16 w = [ucast (drop_bit 8 w), ucast w]"

definition de16 :: "byte \<Rightarrow> byte \<Rightarrow> u16" where
  "de16 hi lo = push_bit 8 (ucast hi) OR ucast lo"

definition be32 :: "u32 \<Rightarrow> byte list" where
  "be32 w = [ucast (drop_bit 24 w), ucast (drop_bit 16 w), ucast (drop_bit 8 w), ucast w]"

definition de32 :: "byte \<Rightarrow> byte \<Rightarrow> byte \<Rightarrow> byte \<Rightarrow> u32" where
  "de32 a b c d =
     push_bit 24 (ucast a) OR push_bit 16 (ucast b) OR push_bit 8 (ucast c) OR ucast d"

lemma length_be16 [simp]: "length (be16 w) = 2"
  by (simp add: be16_def)

lemma length_be32 [simp]: "length (be32 w) = 4"
  by (simp add: be32_def)

lemma de16_be16 [simp]: "de16 (ucast (drop_bit 8 w)) (ucast w) = (w :: u16)"
  by (rule bit_word_eqI) (auto simp: de16_def bit_simps)

lemma ucast_de16_hi [simp]: "ucast (drop_bit 8 (de16 hi lo)) = hi"
  by (rule bit_word_eqI) (auto simp: de16_def bit_simps dest: bit_imp_le_length)

lemma ucast_de16_lo [simp]: "ucast (de16 hi lo) = lo"
  by (rule bit_word_eqI) (auto simp: de16_def bit_simps dest: bit_imp_le_length)

lemma be16_de16 [simp]: "be16 (de16 hi lo) = [hi, lo]"
  by (simp add: be16_def)

lemma de16_inject [simp]: "de16 a b = de16 a' b' \<longleftrightarrow> a = a' \<and> b = b'"
  by (metis ucast_de16_hi ucast_de16_lo)

lemma de32_be32 [simp]:
  "de32 (ucast (drop_bit 24 w)) (ucast (drop_bit 16 w)) (ucast (drop_bit 8 w)) (ucast w) = (w :: u32)"
proof (rule bit_word_eqI)
  fix n
  assume "n < LENGTH(32)"
  then consider "n < 8" | "8 \<le> n" "n < 16" | "16 \<le> n" "n < 24" | "24 \<le> n" "n < 32"
    by force
  then show "bit (de32 (ucast (drop_bit 24 w)) (ucast (drop_bit 16 w)) (ucast (drop_bit 8 w)) (ucast w)) n
      = bit w n"
    by cases (auto simp: de32_def bit_simps)
qed

lemma unat_ucast_byte [simp]: "unat (ucast (c :: byte) :: u16) < 256"
  using unsigned_less [of c, where ?'a = nat] by (simp add: unsigned_ucast_eq take_bit_nat_eq_self)

text \<open>Octets of an ASCII literal of the source.\<close>

definition bytes_of :: "string \<Rightarrow> byte list" where
  "bytes_of s = map of_char s"

lemma bytes_of_simps [simp]:
  "bytes_of [] = []"
  "bytes_of (c # cs) = of_char c # bytes_of cs"
  "length (bytes_of s) = length s"
  by (simp_all add: bytes_of_def)

text \<open>
  Reading offset \<open>i\<close> of a \<open>std::string\<close> of size \<open>n\<close> through \<open>data()\<close> or \<open>operator[]\<close>: the byte
  when \<open>i < n\<close>, the terminating NUL when \<open>i = n\<close>, and undefined behaviour (\<open>None\<close>) beyond it.
\<close>

definition peek :: "byte list \<Rightarrow> nat \<Rightarrow> byte option" where
  "peek xs i = (if i < length xs then Some (xs ! i) else if i = length xs then Some 0 else None)"

definition peek16 :: "byte list \<Rightarrow> nat \<Rightarrow> u16 option" where
  "peek16 xs i = (case (peek xs i, peek xs (Suc i)) of (Some a, Some b) \<Rightarrow> Some (de16 a b) | _ \<Rightarrow> None)"

definition peek32 :: "byte list \<Rightarrow> nat \<Rightarrow> u32 option" where
  "peek32 xs i =
     (case (peek xs i, peek xs (i + 1), peek xs (i + 2), peek xs (i + 3)) of
        (Some a, Some b, Some c, Some d) \<Rightarrow> Some (de32 a b c d) | _ \<Rightarrow> None)"

lemma peek_in: "i < length xs \<Longrightarrow> peek xs i = Some (xs ! i)"
  by (simp add: peek_def)

lemma peek_Cons_Suc [simp]: "peek (x # xs) (Suc i) = peek xs i"
  by (simp add: peek_def)

lemma peek_Cons_0 [simp]: "peek (x # xs) 0 = Some x"
  by (simp add: peek_def)

lemma peek_Cons_numeral [simp]: "peek (x # xs) (numeral k) = peek xs (pred_numeral k)"
  by (simp add: numeral_eq_Suc)

lemma peek_Nil_0 [simp]: "peek [] 0 = Some 0"
  by (simp add: peek_def)

lemma peek_Nil_Suc [simp]: "peek [] (Suc i) = None"
  by (simp add: peek_def)

lemma peek16_in: "Suc i < length xs \<Longrightarrow> peek16 xs i = Some (de16 (xs ! i) (xs ! Suc i))"
  by (simp add: peek16_def peek_def)

lemma peek32_in:
  "i + 3 < length xs \<Longrightarrow>
     peek32 xs i = Some (de32 (xs ! i) (xs ! (i + 1)) (xs ! (i + 2)) (xs ! (i + 3)))"
  by (simp add: peek32_def peek_def)

section \<open>Substring search\<close>

text \<open>The least offset at or after \<open>0\<close> where \<open>p\<close> occurs in \<open>xs\<close>: \<open>std::string::find\<close>, \<open>strstr\<close>.\<close>

fun is_prefix :: "'a list \<Rightarrow> 'a list \<Rightarrow> bool" where
  "is_prefix [] ys = True"
| "is_prefix (x # xs) [] = False"
| "is_prefix (x # xs) (y # ys) = (x = y \<and> is_prefix xs ys)"

fun find_sub :: "'a list \<Rightarrow> 'a list \<Rightarrow> nat option" where
  "find_sub p [] = (if is_prefix p [] then Some 0 else None)"
| "find_sub p (x # xs) =
     (if is_prefix p (x # xs) then Some 0 else map_option Suc (find_sub p xs))"

definition contains :: "'a list \<Rightarrow> 'a list \<Rightarrow> bool" where
  "contains xs p = (find_sub p xs \<noteq> None)"

lemma is_prefix_iff: "is_prefix xs ys \<longleftrightarrow> (\<exists>zs. ys = xs @ zs)"
  by (induction xs ys rule: is_prefix.induct) auto

lemma find_sub_Some:
  "find_sub p xs = Some i \<Longrightarrow> i + length p \<le> length xs \<and> is_prefix p (drop i xs)"
proof (induction xs arbitrary: i)
  case Nil
  then show ?case by (auto simp: is_prefix_iff split: if_splits)
next
  case (Cons x xs)
  then show ?case
  proof (cases "is_prefix p (x # xs)")
    case True
    then have "length p \<le> length (x # xs)" by (auto simp: is_prefix_iff dest: arg_cong [of _ _ length])
    with True Cons.prems show ?thesis by simp
  next
    case False
    with Cons show ?thesis by auto
  qed
qed

lemma find_sub_least: "find_sub p xs = Some i \<Longrightarrow> j < i \<Longrightarrow> \<not> is_prefix p (drop j xs)"
proof (induction xs arbitrary: i j)
  case Nil
  then show ?case by (auto split: if_splits)
next
  case (Cons x xs)
  then obtain i' where i': "i = Suc i'" "find_sub p xs = Some i'" "\<not> is_prefix p (x # xs)"
    by (auto split: if_splits)
  with Cons show ?case by (cases j) auto
qed

lemma find_sub_None: "find_sub p xs = None \<Longrightarrow> j \<le> length xs \<Longrightarrow> \<not> is_prefix p (drop j xs)"
proof (induction xs arbitrary: j)
  case Nil
  then show ?case by (auto split: if_splits)
next
  case (Cons x xs)
  then show ?case by (cases j) (auto split: if_splits)
qed

lemma contains_iff: "contains xs p \<longleftrightarrow> (\<exists>us vs. xs = us @ p @ vs)"
proof
  assume "contains xs p"
  then obtain i where "find_sub p xs = Some i" by (auto simp: contains_def)
  then obtain zs where "drop i xs = p @ zs" using find_sub_Some is_prefix_iff by blast
  then have "xs = take i xs @ p @ zs" by (metis append_take_drop_id)
  then show "\<exists>us vs. xs = us @ p @ vs" by blast
next
  assume "\<exists>us vs. xs = us @ p @ vs"
  then obtain us vs where xs: "xs = us @ p @ vs" by blast
  then have "is_prefix p (drop (length us) xs)" by (simp add: is_prefix_iff)
  with xs show "contains xs p"
    using find_sub_None [of p xs "length us"] by (auto simp: contains_def)
qed

section \<open>Programs over a state\<close>

text \<open>
  \<open>class ChannelException\<close> (Channel.h): the default constructor reports an unconnected channel, the
  other one carries an \<open>errno\<close>.
\<close>

record ChannelException =
  err :: int
  bUnConnected :: bool

definition ChannelException0 :: ChannelException where
  "ChannelException0 = \<lparr>err = 0, bUnConnected = True\<rparr>"

definition ChannelException1 :: "int \<Rightarrow> ChannelException" where
  "ChannelException1 errNo = \<lparr>err = errNo, bUnConnected = False\<rparr>"

text \<open>
  The outcome of a call.  \<open>Undef\<close> is a read outside a buffer.  \<open>Pending\<close> means that the call had
  not returned when the recorded behaviour of its environment ended.
\<close>

datatype 'a outcome = Val 'a | Throw ChannelException | Undef | Pending

type_synonym ('s, 'a) prog = "'s \<Rightarrow> 'a outcome \<times> 's"

definition ret :: "'a \<Rightarrow> ('s, 'a) prog" where
  "ret x s = (Val x, s)"

definition throw :: "ChannelException \<Rightarrow> ('s, 'a) prog" where
  "throw e s = (Throw e, s)"

definition gets :: "('s \<Rightarrow> 'a) \<Rightarrow> ('s, 'a) prog" where
  "gets f s = (Val (f s), s)"

definition modify :: "('s \<Rightarrow> 's) \<Rightarrow> ('s, unit) prog" where
  "modify f s = (Val (), f s)"

definition of_opt :: "'a option \<Rightarrow> ('s, 'a) prog" where
  "of_opt x s = (case x of None \<Rightarrow> (Undef, s) | Some v \<Rightarrow> (Val v, s))"

definition bnd :: "('s, 'a) prog \<Rightarrow> ('a \<Rightarrow> ('s, 'b) prog) \<Rightarrow> ('s, 'b) prog" where
  "bnd m f s =
     (case m s of
        (Val x, s') \<Rightarrow> f x s'
      | (Throw e, s') \<Rightarrow> (Throw e, s')
      | (Undef, s') \<Rightarrow> (Undef, s')
      | (Pending, s') \<Rightarrow> (Pending, s'))"

definition thn :: "('s, 'a) prog \<Rightarrow> ('s, 'b) prog \<Rightarrow> ('s, 'b) prog" where
  "thn m k = bnd m (\<lambda>_. k)"

text \<open>\<open>try { m } catch (ChannelException& e) { h e }\<close>.\<close>

definition catch :: "('s, 'a) prog \<Rightarrow> (ChannelException \<Rightarrow> ('s, 'a) prog) \<Rightarrow> ('s, 'a) prog" where
  "catch m h s = (case m s of (Throw e, s') \<Rightarrow> h e s' | r \<Rightarrow> r)"

definition cond :: "('s \<Rightarrow> bool) \<Rightarrow> ('s, 'a) prog \<Rightarrow> ('s, 'a) prog \<Rightarrow> ('s, 'a) prog" where
  "cond b m k s = (if b s then m s else k s)"

text \<open>
  A member function changes its object also when it throws: it is a program over the pair of the
  outer state and the object.  \<open>call_try\<close> runs it on an object and hands the object back together
  with the value or the exception; \<open>call\<close> lets the exception through.  \<open>outer\<close> lifts a program of the
  outer state.
\<close>

definition outer :: "('s, 'a) prog \<Rightarrow> ('s \<times> 'o, 'a) prog" where
  "outer m p = (case m (fst p) of (r, s') \<Rightarrow> (r, (s', snd p)))"

definition call_try :: "('s \<times> 'o, 'a) prog \<Rightarrow> 'o \<Rightarrow> ('s, ('a + ChannelException) \<times> 'o) prog" where
  "call_try m o0 s =
     (case m (s, o0) of
        (Val x, (s', o')) \<Rightarrow> (Val (Inl x, o'), s')
      | (Throw e, (s', o')) \<Rightarrow> (Val (Inr e, o'), s')
      | (Undef, (s', o')) \<Rightarrow> (Undef, s')
      | (Pending, (s', o')) \<Rightarrow> (Pending, s'))"

definition call :: "('s \<times> 'o, 'a) prog \<Rightarrow> 'o \<Rightarrow> ('s, 'a \<times> 'o) prog" where
  "call m o0 =
     bnd (call_try m o0) (\<lambda>(r, o'). case r of Inl x \<Rightarrow> ret (x, o') | Inr e \<Rightarrow> throw e)"

text \<open>Running a method of an object that is stored in the state.\<close>

definition on_obj :: "('s \<Rightarrow> 'o) \<Rightarrow> ('o \<Rightarrow> 's \<Rightarrow> 's) \<Rightarrow> ('s \<times> 'o, 'a) prog \<Rightarrow> ('s, 'a) prog" where
  "on_obj get put m s = (case m (s, get s) of (r, (s', x)) \<Rightarrow> (r, put x s'))"

lemma bnd_simps [prog_simps]:
  "bnd (ret x) f = f x"
  "bnd (throw e) f = throw e"
  "bnd (gets g) f s = f (g s) s"
  "bnd (modify u) h s = h () (u s)"
  "bnd (bnd m f') f = bnd m (\<lambda>x. bnd (f' x) f)"
  "bnd (of_opt (Some v)) f = f v"
  by (auto simp: bnd_def ret_def throw_def gets_def modify_def of_opt_def fun_eq_iff
      split: prod.splits outcome.splits)

lemma thn_simps [prog_simps]:
  "thn (ret x) k = k"
  "thn (throw e) k = throw e"
  "thn (modify u) k s = k (u s)"
  "thn (thn m k) l = thn m (thn k l)"
  "bnd (thn m k) f = thn m (bnd k f)"
  "thn (bnd m g) l = bnd m (\<lambda>x. thn (g x) l)"
  by (auto simp: thn_def prog_simps)

lemma catch_simps [prog_simps]:
  "catch (ret x) h = ret x"
  "catch (throw e) h = h e"
  by (auto simp: catch_def ret_def throw_def fun_eq_iff)

lemma bnd_Val: "m s = (Val x, s') \<Longrightarrow> bnd m f s = f x s'"
  by (simp add: bnd_def)

lemma bnd_Throw: "m s = (Throw e, s') \<Longrightarrow> bnd m f s = (Throw e, s')"
  by (simp add: bnd_def)

lemma thn_Val: "m s = (Val x, s') \<Longrightarrow> thn m k s = k s'"
  by (simp add: thn_def bnd_def)

lemma bnd_eq_Val:
  "bnd m f s = (Val y, t) \<longleftrightarrow> (\<exists>x s'. m s = (Val x, s') \<and> f x s' = (Val y, t))"
  by (auto simp: bnd_def split: prod.splits outcome.splits)

lemma bnd_eq_Throw:
  "bnd m f s = (Throw e, t) \<longleftrightarrow>
     m s = (Throw e, t) \<or> (\<exists>x s'. m s = (Val x, s') \<and> f x s' = (Throw e, t))"
  by (auto simp: bnd_def split: prod.splits outcome.splits)

lemma bnd_cases:
  assumes "\<And>x s' r t. m s = (Val x, s') \<Longrightarrow> f x s' = (r, t) \<Longrightarrow> P t"
    and "\<And>r t. m s = (r, t) \<Longrightarrow> P t"
  shows "P (snd (bnd m f s))"
proof (cases "m s")
  case (Pair r t)
  with assms show ?thesis by (cases r) (auto simp: bnd_def, metis prod.collapse)
qed

lemma catch_cases:
  assumes "\<And>e s' r t. m s = (Throw e, s') \<Longrightarrow> h e s' = (r, t) \<Longrightarrow> P t"
    and "\<And>r t. m s = (r, t) \<Longrightarrow> P t"
  shows "P (snd (catch m h s))"
proof (cases "m s")
  case (Pair r t)
  with assms show ?thesis by (cases r) (auto simp: catch_def, metis prod.collapse)
qed

subsection \<open>Relations every run respects\<close>

text \<open>
  \<open>moves R m\<close>: whatever its outcome, running \<open>m\<close> takes the state along \<open>R\<close>.  For a preorder \<open>R\<close>
  the rules below follow the structure of the program.  An invariant \<open>I\<close> is the preorder
  \<open>preserves I\<close>; a bound that never grows is the preorder \<open>\<lambda>s s'. f s' \<le> f s\<close>.
\<close>

definition moves :: "('s \<Rightarrow> 's \<Rightarrow> bool) \<Rightarrow> ('s, 'a) prog \<Rightarrow> bool" where
  "moves R m = (\<forall>s. R s (snd (m s)))"

definition preserves :: "('s \<Rightarrow> bool) \<Rightarrow> 's \<Rightarrow> 's \<Rightarrow> bool" where
  "preserves I s s' = (I s \<longrightarrow> I s')"

definition preorder_rel :: "('s \<Rightarrow> 's \<Rightarrow> bool) \<Rightarrow> bool" where
  "preorder_rel R = (reflp R \<and> transp R)"

lemma preorder_preserves [simp, intro]: "preorder_rel (preserves I)"
  by (auto simp: preorder_rel_def preserves_def reflp_def transp_def)

lemma preorder_le [simp, intro]: "preorder_rel (\<lambda>s s'. (f s' :: nat) \<le> f s)"
  by (auto simp: preorder_rel_def reflp_def transp_def)

lemma preorder_eq [simp, intro]: "preorder_rel (\<lambda>s s'. f s' = f s)"
  by (auto simp: preorder_rel_def reflp_def transp_def)

lemma preorder_prefix [simp, intro]: "preorder_rel (\<lambda>s s'. \<exists>xs. f s' = f s @ xs)"
  by (auto simp: preorder_rel_def reflp_def transp_def)

lemma preorder_conj:
  "preorder_rel R \<Longrightarrow> preorder_rel S \<Longrightarrow> preorder_rel (\<lambda>s s'. R s s' \<and> S s s')"
  by (auto simp: preorder_rel_def reflp_def transp_def)

lemma preorder_relD:
  "preorder_rel R \<Longrightarrow> R s s' \<Longrightarrow> R s' t \<Longrightarrow> R s t"
  by (auto simp: preorder_rel_def dest: transpD)

lemma movesI: "(\<And>s. R s (snd (m s))) \<Longrightarrow> moves R m"
  by (simp add: moves_def)

lemma movesD: "moves R m \<Longrightarrow> m s = (r, s') \<Longrightarrow> R s s'"
  by (auto simp: moves_def dest: spec [of _ s])

lemma moves_preserves_iff: "moves (preserves I) m \<longleftrightarrow> (\<forall>s. I s \<longrightarrow> I (snd (m s)))"
  by (simp add: moves_def preserves_def)

lemma moves_ret [hoare_rules]: "preorder_rel R \<Longrightarrow> moves R (ret x)"
  by (auto simp: moves_def ret_def preorder_rel_def reflp_def)

lemma moves_throw [hoare_rules]: "preorder_rel R \<Longrightarrow> moves R (throw e)"
  by (auto simp: moves_def throw_def preorder_rel_def reflp_def)

lemma moves_gets [hoare_rules]: "preorder_rel R \<Longrightarrow> moves R (gets f)"
  by (auto simp: moves_def gets_def preorder_rel_def reflp_def)

lemma moves_of_opt [hoare_rules]: "preorder_rel R \<Longrightarrow> moves R (of_opt x)"
  by (auto simp: moves_def of_opt_def preorder_rel_def reflp_def split: option.splits)

lemma moves_modify: "(\<And>s. R s (f s)) \<Longrightarrow> moves R (modify f)"
  by (simp add: moves_def modify_def)

lemma moves_bnd [hoare_rules]:
  "preorder_rel R \<Longrightarrow> moves R m \<Longrightarrow> (\<And>x. moves R (f x)) \<Longrightarrow> moves R (bnd m f)"
  by (rule movesI, rule bnd_cases) (auto dest: movesD intro: preorder_relD)

lemma moves_thn [hoare_rules]:
  "preorder_rel R \<Longrightarrow> moves R m \<Longrightarrow> moves R k \<Longrightarrow> moves R (thn m k)"
  by (simp add: thn_def moves_bnd)

lemma moves_catch [hoare_rules]:
  "preorder_rel R \<Longrightarrow> moves R m \<Longrightarrow> (\<And>e. moves R (h e)) \<Longrightarrow> moves R (catch m h)"
  by (rule movesI, rule catch_cases) (auto dest: movesD intro: preorder_relD)

lemma moves_cond [hoare_rules]: "moves R m \<Longrightarrow> moves R k \<Longrightarrow> moves R (cond b m k)"
  by (auto simp: moves_def cond_def)

lemma moves_if [hoare_rules]: "moves R m \<Longrightarrow> moves R k \<Longrightarrow> moves R (if b then m else k)"
  by simp

lemma moves_case_option [hoare_rules]:
  "moves R m \<Longrightarrow> (\<And>x. moves R (f x)) \<Longrightarrow> moves R (case v of None \<Rightarrow> m | Some x \<Rightarrow> f x)"
  by (cases v) auto

lemma moves_case_list [hoare_rules]:
  "moves R m \<Longrightarrow> (\<And>x xs. moves R (f x xs)) \<Longrightarrow> moves R (case v of [] \<Rightarrow> m | x # xs \<Rightarrow> f x xs)"
  by (cases v) auto

text \<open>A relation on the outer state, for the methods of an object.\<close>

lemma moves_fst_outer: "moves R m \<Longrightarrow> moves (\<lambda>s s'. R (fst s) (fst s')) (outer m)"
  by (simp add: moves_def outer_def case_prod_beta)

lemma preorder_fst: "preorder_rel R \<Longrightarrow> preorder_rel (\<lambda>s s'. R (fst s) (fst s'))"
  unfolding preorder_rel_def reflp_def transp_def by blast

lemma moves_call_try:
  assumes "moves (\<lambda>s s'. R (fst s) (fst s')) m"
  shows "moves R (call_try m x)"
proof (rule movesI)
  fix s
  obtain r s' y where run: "m (s, x) = (r, (s', y))" by (metis prod.collapse)
  with movesD [OF assms run] show "R s (snd (call_try m x s))" by (cases r) (simp_all add: call_try_def)
qed

lemma moves_call:
  "preorder_rel R \<Longrightarrow> moves (\<lambda>s s'. R (fst s) (fst s')) m \<Longrightarrow> moves R (call m x)"
  unfolding call_def case_prod_beta
  by (rule moves_bnd [OF _ moves_call_try]) (auto intro: moves_ret moves_throw split: sum.split)

subsection \<open>Loops\<close>

text \<open>
  \<open>loop \<mu> body x\<close>: run \<open>body\<close> from loop variable \<open>x\<close>; \<open>Inl x'\<close> continues with \<open>x'\<close>, \<open>Inr r\<close> leaves
  the loop with \<open>r\<close>.  \<open>\<mu>\<close> bounds how much environment behaviour is left; each round of a loop of
  the program consumes some of it, so \<open>Suc (\<mu> s)\<close> rounds are enough (\<open>loop_unfold\<close>).
\<close>

primrec loopN :: "nat \<Rightarrow> ('x \<Rightarrow> ('s, 'x + 'r) prog) \<Rightarrow> 'x \<Rightarrow> ('s, 'r) prog" where
  "loopN 0 body x = (\<lambda>s. (Pending, s))"
| "loopN (Suc k) body x =
     bnd (body x) (\<lambda>r. case r of Inl x' \<Rightarrow> loopN k body x' | Inr v \<Rightarrow> ret v)"

definition loop :: "('s \<Rightarrow> nat) \<Rightarrow> ('x \<Rightarrow> ('s, 'x + 'r) prog) \<Rightarrow> 'x \<Rightarrow> ('s, 'r) prog" where
  "loop \<mu> body x s = loopN (Suc (\<mu> s)) body x s"

definition consumes :: "('s \<Rightarrow> nat) \<Rightarrow> ('x \<Rightarrow> ('s, 'x + 'r) prog) \<Rightarrow> bool" where
  "consumes \<mu> body = (\<forall>x s x' s'. body x s = (Val (Inl x'), s') \<longrightarrow> \<mu> s' < \<mu> s)"

lemma loopN_enough:
  "consumes \<mu> body \<Longrightarrow> \<mu> s < k \<Longrightarrow> \<mu> s < k' \<Longrightarrow> loopN k body x s = loopN k' body x s"
proof (induction k arbitrary: k' x s)
  case 0
  then show ?case by simp
next
  case (Suc k)
  from Suc.prems(3) obtain l where l: "k' = Suc l" by (cases k') auto
  have eq: "loopN k body x' s' = loopN l body x' s'" if "body x s = (Val (Inl x'), s')" for x' s'
  proof (rule Suc.IH)
    from that Suc.prems(1) have "\<mu> s' < \<mu> s" by (auto simp: consumes_def)
    with Suc.prems l show "\<mu> s' < k" "\<mu> s' < l" by auto
  qed (rule Suc.prems(1))
  then show ?case
    by (auto simp: l bnd_def split: prod.splits outcome.splits sum.splits)
qed

lemma loop_unfold:
  assumes "consumes \<mu> body"
  shows "loop \<mu> body x s = bnd (body x) (\<lambda>r. case r of Inl x' \<Rightarrow> loop \<mu> body x' | Inr v \<Rightarrow> ret v) s"
proof -
  have "loopN (\<mu> s) body x' s' = loopN (Suc (\<mu> s')) body x' s'" if "body x s = (Val (Inl x'), s')" for x' s'
  proof (rule loopN_enough [OF assms])
    from that assms show "\<mu> s' < \<mu> s" by (auto simp: consumes_def)
  qed simp
  then show ?thesis
    by (auto simp: loop_def bnd_def split: prod.splits outcome.splits sum.splits)
qed

text \<open>
  When a round may leave the environment as it is, the measure also looks at the loop variable; then the
  bound \<open>\<mu>\<close> of the loop is enough if it is at least the measure at the start.
\<close>

lemma loopN_measure:
  assumes "\<And>x s x' s'. J x \<Longrightarrow> body x s = (Val (Inl x'), s') \<Longrightarrow> J x' \<and> \<nu> x' s' < (\<nu> x s :: nat)"
  shows "J x \<Longrightarrow> \<nu> x s < k \<Longrightarrow> \<nu> x s < k' \<Longrightarrow> loopN k body x s = loopN k' body x s"
proof (induction k arbitrary: k' x s)
  case 0
  then show ?case by simp
next
  case (Suc k)
  from Suc.prems(3) obtain l where l: "k' = Suc l" by (cases k') auto
  have "loopN k body x' s' = loopN l body x' s'" if "body x s = (Val (Inl x'), s')" for x' s'
    using assms [OF Suc.prems(1) that] Suc.prems l by (intro Suc.IH) auto
  then show ?case
    by (auto simp: l bnd_def split: prod.splits outcome.splits sum.splits)
qed

lemma loop_enough:
  assumes "\<And>x s x' s'. J x \<Longrightarrow> body x s = (Val (Inl x'), s') \<Longrightarrow> J x' \<and> \<nu> x' s' < (\<nu> x s :: nat)"
    and "J x" "\<nu> x s \<le> \<mu> s" "\<mu> s < k"
  shows "loopN k body x s = loop \<mu> body x s"
  unfolding loop_def using assms(3,4) by (intro loopN_measure [of J body \<nu>] assms(1,2)) auto

lemma loop_consumes: "consumes \<mu> body \<Longrightarrow> \<mu> s < k \<Longrightarrow> loopN k body x s = loop \<mu> body x s"
  unfolding loop_def by (intro loopN_enough) auto

text \<open>\<open>eats \<mu> m\<close>: a call that returns has consumed some of \<open>\<mu>\<close>.\<close>

definition eats :: "('s \<Rightarrow> nat) \<Rightarrow> ('s, 'a) prog \<Rightarrow> bool" where
  "eats \<mu> m = (\<forall>s v s'. m s = (Val v, s') \<longrightarrow> \<mu> s' < \<mu> s)"

lemma eatsD: "eats \<mu> m \<Longrightarrow> m s = (Val v, s') \<Longrightarrow> \<mu> s' < \<mu> s"
  by (simp add: eats_def)

lemma eats_bnd1: "eats \<mu> m \<Longrightarrow> (\<And>x. moves (\<lambda>s s'. \<mu> s' \<le> \<mu> s) (f x)) \<Longrightarrow> eats \<mu> (bnd m f)"
  unfolding eats_def bnd_eq_Val by (meson le_less_trans movesD)

lemma eats_bnd2: "moves (\<lambda>s s'. \<mu> s' \<le> \<mu> s) m \<Longrightarrow> (\<And>x. eats \<mu> (f x)) \<Longrightarrow> eats \<mu> (bnd m f)"
  unfolding eats_def bnd_eq_Val by (meson less_le_trans movesD)

lemma eats_thn:
  "eats \<mu> m \<Longrightarrow> moves (\<lambda>s s'. \<mu> s' \<le> \<mu> s) k \<Longrightarrow> eats \<mu> (thn m k)"
  "moves (\<lambda>s s'. \<mu> s' \<le> \<mu> s) m' \<Longrightarrow> eats \<mu> k' \<Longrightarrow> eats \<mu> (thn m' k')"
  unfolding thn_def by (auto intro: eats_bnd1 eats_bnd2)

lemma eats_if: "eats \<mu> m \<Longrightarrow> eats \<mu> k \<Longrightarrow> eats \<mu> (if b then m else k)"
  by simp

lemma moves_loopN: "preorder_rel R \<Longrightarrow> (\<And>x. moves R (body x)) \<Longrightarrow> moves R (loopN k body x)"
proof (induction k arbitrary: x)
  case 0
  then show ?case by (auto simp: moves_def preorder_rel_def reflp_def)
next
  case (Suc k)
  then show ?case by (auto intro!: hoare_rules split: sum.split)
qed

lemma moves_loop [hoare_rules]:
  "preorder_rel R \<Longrightarrow> (\<And>x. moves R (body x)) \<Longrightarrow> moves R (loop \<mu> body x)"
  using moves_loopN [of R body _ x] by (auto simp: moves_def loop_def simp del: loopN.simps)

lemma eats_loop:
  assumes "\<And>x. eats \<mu> (body x)" "\<And>x. moves (\<lambda>s s'. \<mu> s' \<le> \<mu> s) (body x)"
  shows "eats \<mu> (loop \<nu> body x)"
proof -
  have "eats \<mu> (loopN (Suc k) body x)" for k
    unfolding loopN.simps
    by (rule eats_bnd1 [OF assms(1)]) (auto split: sum.split intro!: moves_ret moves_loopN assms(2))
  then show ?thesis by (simp add: eats_def loop_def del: loopN.simps)
qed

text \<open>
  Partial-correctness triples: from a state of \<open>P\<close>, a returned value satisfies \<open>Q\<close> and a thrown
  exception satisfies \<open>E\<close>.
\<close>

definition hoare ::
  "('s \<Rightarrow> bool) \<Rightarrow> ('s, 'a) prog \<Rightarrow> ('a \<Rightarrow> 's \<Rightarrow> bool) \<Rightarrow> (ChannelException \<Rightarrow> 's \<Rightarrow> bool) \<Rightarrow> bool" where
  "hoare P m Q E =
     (\<forall>s. P s \<longrightarrow> (case m s of (Val x, s') \<Rightarrow> Q x s' | (Throw e, s') \<Rightarrow> E e s' | _ \<Rightarrow> True))"

lemma hoareI:
  "(\<And>s x s'. P s \<Longrightarrow> m s = (Val x, s') \<Longrightarrow> Q x s') \<Longrightarrow>
   (\<And>s e s'. P s \<Longrightarrow> m s = (Throw e, s') \<Longrightarrow> E e s') \<Longrightarrow> hoare P m Q E"
  by (auto simp: hoare_def split: prod.splits outcome.splits)

lemma hoare_ValD: "hoare P m Q E \<Longrightarrow> m s = (Val x, s') \<Longrightarrow> P s \<Longrightarrow> Q x s'"
  by (auto simp: hoare_def dest: spec [of _ s])

lemma hoare_ThrowD: "hoare P m Q E \<Longrightarrow> m s = (Throw e, s') \<Longrightarrow> P s \<Longrightarrow> E e s'"
  by (auto simp: hoare_def dest: spec [of _ s])

lemma hoare_ret: "(\<And>s. P s \<Longrightarrow> Q x s) \<Longrightarrow> hoare P (ret x) Q E"
  by (simp add: hoare_def ret_def)

lemma hoare_bnd:
  "hoare P m R E \<Longrightarrow> (\<And>x. hoare (R x) (f x) Q E) \<Longrightarrow> hoare P (bnd m f) Q E"
  by (rule hoareI) (auto simp: bnd_eq_Val bnd_eq_Throw dest: hoare_ValD hoare_ThrowD)

lemma hoare_weaken:
  "hoare P m Q E \<Longrightarrow> (\<And>s. P' s \<Longrightarrow> P s) \<Longrightarrow> (\<And>x s. Q x s \<Longrightarrow> Q' x s) \<Longrightarrow>
   (\<And>e s. E e s \<Longrightarrow> E' e s) \<Longrightarrow> hoare P' m Q' E'"
  by (rule hoareI) (auto dest: hoare_ValD hoare_ThrowD)

lemma hoare_thn: "hoare P m (\<lambda>_. R) E \<Longrightarrow> hoare R k Q E \<Longrightarrow> hoare P (thn m k) Q E"
  unfolding thn_def by (rule hoare_bnd)

lemma hoare_catch:
  "hoare P m Q R \<Longrightarrow> (\<And>e. hoare (R e) (h e) Q E) \<Longrightarrow> hoare P (catch m h) Q E"
  unfolding hoare_def catch_def by (fastforce split: prod.splits outcome.splits)

lemma hoare_modify: "(\<And>s. P s \<Longrightarrow> Q () (f s)) \<Longrightarrow> hoare P (modify f) Q E"
  by (simp add: hoare_def modify_def)

lemma hoare_if: "(b \<Longrightarrow> hoare P m Q E) \<Longrightarrow> (\<not> b \<Longrightarrow> hoare P k Q E) \<Longrightarrow> hoare P (if b then m else k) Q E"
  by simp

lemma hoare_loopN:
  "(\<And>x. hoare (I x) (body x) (\<lambda>r. case r of Inl x' \<Rightarrow> I x' | Inr v \<Rightarrow> Q v) E) \<Longrightarrow>
   hoare (I x) (loopN k body x) Q E"
proof (induction k arbitrary: x)
  case 0
  then show ?case by (simp add: hoare_def)
next
  case (Suc k)
  show ?case
    unfolding loopN.simps
    by (rule hoare_bnd [OF Suc.prems]) (auto split: sum.split intro: Suc hoare_ret)
qed

lemma hoare_loop:
  "(\<And>x. hoare (I x) (body x) (\<lambda>r. case r of Inl x' \<Rightarrow> I x' | Inr v \<Rightarrow> Q v) E) \<Longrightarrow>
   hoare (I x) (loop \<mu> body x) Q E"
  using hoare_loopN [of I body Q E x] by (auto simp: hoare_def loop_def simp del: loopN.simps)

subsection \<open>Bounded retries\<close>

text \<open>\<open>do { ... } while (--retry)\<close>: \<open>Some r\<close> leaves the function with \<open>r\<close>, \<open>None\<close> tries again.\<close>

fun attempts :: "nat \<Rightarrow> ('s, 'a option) prog \<Rightarrow> 'a \<Rightarrow> ('s, 'a) prog" where
  "attempts 0 body dflt = ret dflt"
| "attempts (Suc retry) body dflt =
     bnd body (\<lambda>x. case x of Some r \<Rightarrow> ret r | None \<Rightarrow> attempts retry body dflt)"

lemma moves_attempts [hoare_rules]: "preorder_rel R \<Longrightarrow> moves R body \<Longrightarrow> moves R (attempts n body d)"
  by (induction n) (auto intro!: hoare_rules split: option.split)

lemma hoare_attempts_Suc:
  assumes "hoare P body (\<lambda>x. case x of Some r \<Rightarrow> Q r | None \<Rightarrow> P') E" "\<And>s. P' s \<Longrightarrow> P s" "\<And>s. P' s \<Longrightarrow> Q d s"
  shows "hoare P (attempts (Suc n) body d) Q E"
proof (induction n)
  case 0
  show ?case
    unfolding attempts.simps by (rule hoare_bnd [OF assms(1)]) (auto split: option.split intro!: hoare_ret assms(3))
next
  case (Suc n)
  show ?case
    unfolding attempts.simps(2) [of "Suc n"]
  proof (rule hoare_bnd [OF assms(1)])
    fix x
    show "hoare ((case x of Some r \<Rightarrow> Q r | None \<Rightarrow> P'))
        (case x of Some r \<Rightarrow> ret r | None \<Rightarrow> attempts (Suc n) body d) Q E"
      by (cases x) (auto intro: hoare_ret hoare_weaken [OF Suc] assms(2) simp del: attempts.simps)
  qed
qed

lemma hoare_attempts:
  assumes "hoare P body (\<lambda>x. case x of Some r \<Rightarrow> Q r | None \<Rightarrow> P) E" "\<And>s. P s \<Longrightarrow> Q d s"
  shows "hoare P (attempts n body d) Q E"
  using hoare_attempts_Suc [OF assms(1)] assms(2) by (cases n) (auto intro: hoare_ret)

text \<open>
  \<open>track I P m V\<close>: from a state with \<open>I\<close> and \<open>P\<close>, every outcome keeps \<open>I\<close>, and a returned value satisfies \<open>V\<close>.
\<close>

definition track ::
  "('s \<Rightarrow> bool) \<Rightarrow> ('s \<Rightarrow> bool) \<Rightarrow> ('s, 'a) prog \<Rightarrow> ('a \<Rightarrow> 's \<Rightarrow> bool) \<Rightarrow> bool" where
  "track I P m V = (\<forall>s. I s \<and> P s \<longrightarrow> I (snd (m s)) \<and> (\<forall>x. fst (m s) = Val x \<longrightarrow> V x (snd (m s))))"

lemma trackI:
  "(\<And>s r s'. I s \<Longrightarrow> P s \<Longrightarrow> m s = (r, s') \<Longrightarrow> I s') \<Longrightarrow>
   (\<And>s x s'. I s \<Longrightarrow> P s \<Longrightarrow> m s = (Val x, s') \<Longrightarrow> V x s') \<Longrightarrow> track I P m V"
  by (simp add: track_def) (metis prod.collapse)

lemma trackD: "track I P m V \<Longrightarrow> m s = (r, s') \<Longrightarrow> I s \<Longrightarrow> P s \<Longrightarrow> I s' \<and> (\<forall>x. r = Val x \<longrightarrow> V x s')"
  by (auto simp: track_def dest: spec [of _ s])

lemma track_bnd: "track I P m R \<Longrightarrow> (\<And>x. track I (R x) (f x) V) \<Longrightarrow> track I P (bnd m f) V"
  by (rule trackI) (auto simp: bnd_def split: prod.splits outcome.splits dest!: trackD)

lemma track_thn: "track I P m R \<Longrightarrow> (\<And>x. track I (R x) k V) \<Longrightarrow> track I P (thn m k) V"
  unfolding thn_def by (rule track_bnd)

lemma track_ret: "(\<And>s. I s \<Longrightarrow> P s \<Longrightarrow> V x s) \<Longrightarrow> track I P (ret x) V"
  by (simp add: track_def ret_def)

lemma track_weaken:
  "track I P m V \<Longrightarrow> (\<And>s. P' s \<Longrightarrow> P s) \<Longrightarrow> (\<And>x s. I s \<Longrightarrow> V x s \<Longrightarrow> V' x s) \<Longrightarrow> track I P' m V'"
  by (auto simp: track_def)

lemma track_if:
  "(b \<Longrightarrow> track I P m V) \<Longrightarrow> (\<not> b \<Longrightarrow> track I P k V) \<Longrightarrow> track I P (if b then m else k) V"
  by simp

lemma track_moves: "moves (preserves I) m \<longleftrightarrow> track I (\<lambda>_. True) m (\<lambda>_ _. True)"
  by (simp add: track_def moves_preserves_iff)

lemma track_catch:
  "track I P m V \<Longrightarrow> (\<And>e. track I (\<lambda>_. True) (h e) V) \<Longrightarrow> track I P (catch m h) V"
  by (rule trackI) (auto simp: catch_def split: prod.splits outcome.splits dest!: trackD)

lemma track_gets: "(\<And>s. I s \<Longrightarrow> P s \<Longrightarrow> V (f s) s) \<Longrightarrow> track I P (gets f) V"
  by (simp add: track_def gets_def)

lemma track_modify: "(\<And>s. I s \<Longrightarrow> P s \<Longrightarrow> I (f s) \<and> V () (f s)) \<Longrightarrow> track I P (modify f) V"
  by (simp add: track_def modify_def)

lemma track_of_opt: "(\<And>s v. I s \<Longrightarrow> P s \<Longrightarrow> x = Some v \<Longrightarrow> V v s) \<Longrightarrow> track I P (of_opt x) V"
  by (simp add: track_def of_opt_def split: option.splits)

lemma track_keep: "moves (preserves I) m \<Longrightarrow> track I P m (\<lambda>_ _. True)"
  unfolding track_moves by (rule track_weaken) auto

lemma track_loopN:
  "(\<And>x. track I (P x) (body x) (\<lambda>r. case r of Inl x' \<Rightarrow> P x' | Inr v \<Rightarrow> Q v)) \<Longrightarrow>
   track I (P x) (loopN k body x) Q"
proof (induction k arbitrary: x)
  case 0
  then show ?case by (simp add: track_def)
next
  case (Suc k)
  show ?case
    unfolding loopN.simps
    by (rule track_bnd [OF Suc.prems]) (auto split: sum.split intro: Suc track_ret)
qed

lemma track_loop:
  "(\<And>x. track I (P x) (body x) (\<lambda>r. case r of Inl x' \<Rightarrow> P x' | Inr v \<Rightarrow> Q v)) \<Longrightarrow>
   track I (P x) (loop \<mu> body x) Q"
  using track_loopN [of I P body Q x] by (auto simp: track_def loop_def simp del: loopN.simps)

lemma track_attempts:
  assumes "track I P body (\<lambda>x. case x of Some r \<Rightarrow> Q r | None \<Rightarrow> P)" "\<And>s. I s \<Longrightarrow> P s \<Longrightarrow> Q d s"
  shows "track I P (attempts n body d) Q"
proof (induction n)
  case 0
  show ?case using assms(2) by (simp add: track_ret)
next
  case (Suc n)
  show ?case
    unfolding attempts.simps by (rule track_bnd [OF assms(1)]) (auto split: option.split intro: track_ret Suc)
qed

text \<open>The unfoldings that run a straight-line program on a given state.\<close>

lemmas run_defs = bnd_def thn_def ret_def throw_def gets_def modify_def of_opt_def outer_def catch_def cond_def

section \<open>Absence of undefined behaviour\<close>

definition no_undef :: "('s, 'a) prog \<Rightarrow> bool" where
  "no_undef m = (\<forall>s. fst (m s) \<noteq> Undef)"

lemma no_undefD: "no_undef m \<Longrightarrow> m s \<noteq> (Undef, s')"
  by (auto simp: no_undef_def dest: spec [of _ s])

lemma no_undef_basic [safe_rules]:
  "no_undef (ret x)" "no_undef (throw e)" "no_undef (gets f)" "no_undef (modify u)"
  by (simp_all add: no_undef_def ret_def throw_def gets_def modify_def)

lemma no_undef_bnd [safe_rules]: "no_undef m \<Longrightarrow> (\<And>x. no_undef (f x)) \<Longrightarrow> no_undef (bnd m f)"
  by (auto simp: no_undef_def bnd_def split: prod.splits outcome.splits) (metis fst_conv)+

lemma no_undef_thn [safe_rules]: "no_undef m \<Longrightarrow> no_undef k \<Longrightarrow> no_undef (thn m k)"
  by (simp add: thn_def no_undef_bnd)

lemma no_undef_catch [safe_rules]: "no_undef m \<Longrightarrow> (\<And>e. no_undef (h e)) \<Longrightarrow> no_undef (catch m h)"
  by (auto simp: no_undef_def catch_def split: prod.splits outcome.splits) (metis fst_conv)+

lemma no_undef_cond [safe_rules]: "no_undef m \<Longrightarrow> no_undef k \<Longrightarrow> no_undef (cond b m k)"
  by (auto simp: no_undef_def cond_def)

lemma no_undef_if [safe_rules]: "no_undef m \<Longrightarrow> no_undef k \<Longrightarrow> no_undef (if b then m else k)"
  by simp

lemma no_undef_case_option [safe_rules]:
  "no_undef m \<Longrightarrow> (\<And>x. no_undef (f x)) \<Longrightarrow> no_undef (case v of None \<Rightarrow> m | Some x \<Rightarrow> f x)"
  by (cases v) auto

lemma no_undef_case_list [safe_rules]:
  "no_undef m \<Longrightarrow> (\<And>x xs. no_undef (f x xs)) \<Longrightarrow> no_undef (case v of [] \<Rightarrow> m | x # xs \<Rightarrow> f x xs)"
  by (cases v) auto

lemma no_undef_outer [safe_rules]: "no_undef m \<Longrightarrow> no_undef (outer m)"
  by (auto simp: no_undef_def outer_def split: prod.splits) (metis fst_conv)

lemma no_undef_on_obj [safe_rules]: "no_undef m \<Longrightarrow> no_undef (on_obj get put m)"
  by (auto simp: no_undef_def on_obj_def split: prod.splits) (metis fst_conv)

lemma no_undef_call_try [safe_rules]: "no_undef m \<Longrightarrow> no_undef (call_try m x)"
  by (auto simp: no_undef_def call_try_def split: prod.splits outcome.splits) (metis fst_conv)+

lemma no_undef_attempts [safe_rules]: "no_undef body \<Longrightarrow> no_undef (attempts n body d)"
  by (induction n) (auto intro!: safe_rules)

lemma no_undef_loopN: "(\<And>x. no_undef (body x)) \<Longrightarrow> no_undef (loopN k body x)"
proof (induction k arbitrary: x)
  case 0
  then show ?case by (simp add: no_undef_def)
next
  case (Suc k)
  then show ?case by (auto intro!: safe_rules split: sum.split)
qed

lemma no_undef_loop [safe_rules]: "(\<And>x. no_undef (body x)) \<Longrightarrow> no_undef (loop \<mu> body x)"
  using no_undef_loopN [of body _ x] by (auto simp: no_undef_def loop_def simp del: loopN.simps)

section \<open>Programs that handle their exceptions\<close>

definition no_throw :: "('s, 'a) prog \<Rightarrow> bool" where
  "no_throw m = (\<forall>s e. fst (m s) \<noteq> Throw e)"

lemma no_throwD: "no_throw m \<Longrightarrow> m s \<noteq> (Throw e, s')"
  by (auto simp: no_throw_def dest: spec [of _ s])

lemma no_throw_basic:
  "no_throw (ret x)" "no_throw (gets f)" "no_throw (modify u)" "no_throw (of_opt v)"
  by (simp_all add: no_throw_def ret_def gets_def modify_def of_opt_def split: option.splits)

lemma no_throw_bnd: "no_throw m \<Longrightarrow> (\<And>x. no_throw (f x)) \<Longrightarrow> no_throw (bnd m f)"
  by (auto simp: no_throw_def bnd_def split: prod.splits outcome.splits) (metis fst_conv)+

lemma no_throw_thn: "no_throw m \<Longrightarrow> no_throw k \<Longrightarrow> no_throw (thn m k)"
  by (simp add: thn_def no_throw_bnd)

lemma no_throw_catch: "(\<And>e. no_throw (h e)) \<Longrightarrow> no_throw (catch m h)"
  by (auto simp: no_throw_def catch_def split: prod.splits outcome.splits)

lemma no_throw_if: "no_throw m \<Longrightarrow> no_throw k \<Longrightarrow> no_throw (if b then m else k)"
  by simp

lemma no_throw_case_option:
  "no_throw m \<Longrightarrow> (\<And>x. no_throw (f x)) \<Longrightarrow> no_throw (case v of None \<Rightarrow> m | Some x \<Rightarrow> f x)"
  by (cases v) auto

lemma no_throw_outer: "no_throw m \<Longrightarrow> no_throw (outer m)"
  by (auto simp: no_throw_def outer_def split: prod.splits) (metis fst_conv)

lemma no_throw_on_obj: "no_throw m \<Longrightarrow> no_throw (on_obj get put m)"
  by (auto simp: no_throw_def on_obj_def split: prod.splits) (metis fst_conv)

lemma no_throw_case_list:
  "no_throw m \<Longrightarrow> (\<And>x xs. no_throw (f x xs)) \<Longrightarrow> no_throw (case v of [] \<Rightarrow> m | x # xs \<Rightarrow> f x xs)"
  by (cases v) auto

lemma no_throw_call_try: "no_throw (call_try m x)"
  by (auto simp: no_throw_def call_try_def split: prod.splits outcome.splits)

lemma no_throw_call: "no_throw m \<Longrightarrow> no_throw (call m x)"
proof (unfold no_throw_def, intro allI)
  fix s e
  assume m: "\<forall>s e. fst (m s) \<noteq> Throw e"
  obtain r s' y where "m (s, x) = (r, (s', y))" by (metis prod.collapse)
  with m [rule_format, of "(s, x)"] show "fst (call m x s) \<noteq> Throw e"
    by (cases r) (auto simp: call_def call_try_def bnd_def ret_def)
qed

lemma no_throw_attempts: "no_throw body \<Longrightarrow> no_throw (attempts n body d)"
  by (induction n) (auto intro!: no_throw_basic no_throw_bnd no_throw_case_option)

lemma no_throw_loopN: "(\<And>x. no_throw (body x)) \<Longrightarrow> no_throw (loopN k body x)"
proof (induction k arbitrary: x)
  case 0
  then show ?case by (simp add: no_throw_def)
next
  case (Suc k)
  then show ?case by (auto intro!: no_throw_basic no_throw_bnd split: sum.split)
qed

lemma no_throw_loop: "(\<And>x. no_throw (body x)) \<Longrightarrow> no_throw (loop \<mu> body x)"
  using no_throw_loopN [of body _ x] by (auto simp: no_throw_def loop_def simp del: loopN.simps)

lemmas no_throw_rules = no_throw_case_list no_throw_call_try no_throw_call no_throw_attempts no_throw_loop
  no_throw_basic no_throw_bnd no_throw_thn no_throw_catch no_throw_if no_throw_case_option
  no_throw_outer no_throw_on_obj

end
