(* ===== verification/CRC16.thy ===== *)
theory CRC16
  imports Prelude
begin

text \<open>
  The checksum of the frame format (CRC16.h, CRC16.cpp): the lookup table, the table-driven byte step
  and the two public overloads of \<open>CRC16::crc16\<close>.  The lemmas relate the table to the bit-serial
  definition of the ITU-T polynomial (reflected, 0x8408) and derive what the checksum detects.
\<close>

section \<open>The code\<close>

definition crc_table_itut :: "16 word list" where
  "crc_table_itut = [
   0x0000, 0x1189, 0x2312, 0x329B, 0x4624, 0x57AD, 0x6536, 0x74BF,
   0x8C48, 0x9DC1, 0xAF5A, 0xBED3, 0xCA6C, 0xDBE5, 0xE97E, 0xF8F7,
   0x1081, 0x0108, 0x3393, 0x221A, 0x56A5, 0x472C, 0x75B7, 0x643E,
   0x9CC9, 0x8D40, 0xBFDB, 0xAE52, 0xDAED, 0xCB64, 0xF9FF, 0xE876,
   0x2102, 0x308B, 0x0210, 0x1399, 0x6726, 0x76AF, 0x4434, 0x55BD,
   0xAD4A, 0xBCC3, 0x8E58, 0x9FD1, 0xEB6E, 0xFAE7, 0xC87C, 0xD9F5,
   0x3183, 0x200A, 0x1291, 0x0318, 0x77A7, 0x662E, 0x54B5, 0x453C,
   0xBDCB, 0xAC42, 0x9ED9, 0x8F50, 0xFBEF, 0xEA66, 0xD8FD, 0xC974,
   0x4204, 0x538D, 0x6116, 0x709F, 0x0420, 0x15A9, 0x2732, 0x36BB,
   0xCE4C, 0xDFC5, 0xED5E, 0xFCD7, 0x8868, 0x99E1, 0xAB7A, 0xBAF3,
   0x5285, 0x430C, 0x7197, 0x601E, 0x14A1, 0x0528, 0x37B3, 0x263A,
   0xDECD, 0xCF44, 0xFDDF, 0xEC56, 0x98E9, 0x8960, 0xBBFB, 0xAA72,
   0x6306, 0x728F, 0x4014, 0x519D, 0x2522, 0x34AB, 0x0630, 0x17B9,
   0xEF4E, 0xFEC7, 0xCC5C, 0xDDD5, 0xA96A, 0xB8E3, 0x8A78, 0x9BF1,
   0x7387, 0x620E, 0x5095, 0x411C, 0x35A3, 0x242A, 0x16B1, 0x0738,
   0xFFCF, 0xEE46, 0xDCDD, 0xCD54, 0xB9EB, 0xA862, 0x9AF9, 0x8B70,
   0x8408, 0x9581, 0xA71A, 0xB693, 0xC22C, 0xD3A5, 0xE13E, 0xF0B7,
   0x0840, 0x19C9, 0x2B52, 0x3ADB, 0x4E64, 0x5FED, 0x6D76, 0x7CFF,
   0x9489, 0x8500, 0xB79B, 0xA612, 0xD2AD, 0xC324, 0xF1BF, 0xE036,
   0x18C1, 0x0948, 0x3BD3, 0x2A5A, 0x5EE5, 0x4F6C, 0x7DF7, 0x6C7E,
   0xA50A, 0xB483, 0x8618, 0x9791, 0xE32E, 0xF2A7, 0xC03C, 0xD1B5,
   0x2942, 0x38CB, 0x0A50, 0x1BD9, 0x6F66, 0x7EEF, 0x4C74, 0x5DFD,
   0xB58B, 0xA402, 0x9699, 0x8710, 0xF3AF, 0xE226, 0xD0BD, 0xC134,
   0x39C3, 0x284A, 0x1AD1, 0x0B58, 0x7FE7, 0x6E6E, 0x5CF5, 0x4D7C,
   0xC60C, 0xD785, 0xE51E, 0xF497, 0x8028, 0x91A1, 0xA33A, 0xB2B3,
   0x4A44, 0x5BCD, 0x6956, 0x78DF, 0x0C60, 0x1DE9, 0x2F72, 0x3EFB,
   0xD68D, 0xC704, 0xF59F, 0xE416, 0x90A9, 0x8120, 0xB3BB, 0xA232,
   0x5AC5, 0x4B4C, 0x79D7, 0x685E, 0x1CE1, 0x0D68, 0x3FF3, 0x2E7A,
   0xE70E, 0xF687, 0xC41C, 0xD595, 0xA12A, 0xB0A3, 0x8238, 0x93B1,
   0x6B46, 0x7ACF, 0x4854, 0x59DD, 0x2D62, 0x3CEB, 0x0E70, 0x1FF9,
   0xF78F, 0xE606, 0xD49D, 0xC514, 0xB1AB, 0xA022, 0x92B9, 0x8330,
   0x7BC7, 0x6A4E, 0x58D5, 0x495C, 0x3DE3, 0x2C6A, 0x1EF1, 0x0F78]"

definition crc16_byte :: "byte \<Rightarrow> u16 \<Rightarrow> u16" where
  "crc16_byte data crc = (crc_table_itut ! unat ((crc XOR ucast data) AND 0x00ff)) XOR drop_bit 8 crc"

text \<open>\<open>crc16(start, data, len)\<close>: the argument list holds the \<open>len\<close> bytes at \<open>data\<close>.\<close>

primrec crc16 :: "u16 \<Rightarrow> byte list \<Rightarrow> u16" where
  "crc16 crc [] = crc"
| "crc16 crc (b # bs) = crc16 (crc16_byte b crc) bs"

text \<open>
  \<open>crc16(start, data, offset, len)\<close> keeps the running value in a \<open>char\<close>.  Whether \<open>char\<close> is signed
  depends on the target: it is unsigned with the ARM tool chain and signed on the x86 build.
\<close>

definition char_of_ushort :: "u16 \<Rightarrow> byte" where
  "char_of_ushort w = ucast w"

definition ushort_of_char :: "bool \<Rightarrow> byte \<Rightarrow> u16" where
  "ushort_of_char char_signed c = (if char_signed then scast c else ucast c)"

primrec crc16_offset_loop :: "bool \<Rightarrow> byte \<Rightarrow> byte list \<Rightarrow> byte" where
  "crc16_offset_loop sg crc [] = crc"
| "crc16_offset_loop sg crc (b # bs) =
     crc16_offset_loop sg (char_of_ushort (crc16_byte b (ushort_of_char sg crc))) bs"

definition crc16_offset :: "bool \<Rightarrow> u16 \<Rightarrow> byte list \<Rightarrow> nat \<Rightarrow> nat \<Rightarrow> u16" where
  "crc16_offset sg start data off len =
     ushort_of_char sg (crc16_offset_loop sg (char_of_ushort start) (take len (drop off data)))"

section \<open>The bit-serial reference\<close>

definition crc_bit :: "u16 \<Rightarrow> u16" where
  "crc_bit c = (if bit c 0 then drop_bit 1 c XOR 0x8408 else drop_bit 1 c)"

definition crc_ref_byte :: "byte \<Rightarrow> u16 \<Rightarrow> u16" where
  "crc_ref_byte b c = (crc_bit ^^ 8) (c XOR ucast b)"

lemma crc_bit_xor: "crc_bit (x XOR y) = crc_bit x XOR crc_bit y"
  by (rule bit_word_eqI) (auto simp: crc_bit_def bit_xor_iff bit_drop_bit_eq)

lemma crc_bit_0 [simp]: "crc_bit 0 = 0"
  by (simp add: crc_bit_def)

lemma crc_bits_xor: "(crc_bit ^^ n) (x XOR y) = (crc_bit ^^ n) x XOR (crc_bit ^^ n) y"
  by (induction n) (simp_all add: crc_bit_xor)

lemma crc_bit_top: "bit (crc_bit c) 15 = bit c 0"
  by (auto simp: crc_bit_def bit_simps dest: bit_imp_le_length)

lemma crc_bit_eq_0: "crc_bit c = 0 \<Longrightarrow> c = 0"
proof -
  assume z: "crc_bit c = 0"
  then have b0: "\<not> bit c 0" using crc_bit_top [of c] by simp
  with z have "drop_bit 1 c = 0" by (simp add: crc_bit_def)
  then have "\<not> bit (drop_bit 1 c) n" for n by simp
  then have "\<not> bit c (Suc n)" for n by (simp add: bit_drop_bit_eq)
  with b0 have "\<not> bit c n" for n by (cases n) auto
  then show "c = 0" by (auto intro: bit_word_eqI)
qed

lemma xor_eq_0_iff: "x XOR y = 0 \<longleftrightarrow> x = (y :: 'a :: len word)"
  by (auto simp: bit_eq_iff bit_xor_iff)

lemma inj_crc_bit: "inj crc_bit"
proof (rule injI)
  fix x y assume "crc_bit x = crc_bit y"
  then have "crc_bit (x XOR y) = 0" by (simp add: crc_bit_xor)
  then show "x = y" using crc_bit_eq_0 xor_eq_0_iff by blast
qed

lemma inj_crc_bits: "inj (crc_bit ^^ n)"
proof (induction n)
  case 0
  show ?case by simp
next
  case (Suc n)
  from inj_compose [OF inj_crc_bit Suc] show ?case by (simp only: funpow.simps)
qed

text \<open>A byte in the upper half is shifted down unchanged by eight steps.\<close>

lemma crc_bits_high: "n \<le> 8 \<Longrightarrow> (crc_bit ^^ n) (push_bit 8 (ucast (b :: byte))) = push_bit (8 - n) (ucast b)"
proof (induction n)
  case 0
  then show ?case by simp
next
  case (Suc n)
  then have IH: "(crc_bit ^^ n) (push_bit 8 (ucast b)) = push_bit (8 - n) (ucast b)" by simp
  have "\<not> bit (push_bit (8 - n) (ucast b) :: u16) 0"
    using Suc.prems by (simp add: bit_simps)
  then have "crc_bit (push_bit (8 - n) (ucast b)) = drop_bit 1 (push_bit (8 - n) (ucast b) :: u16)"
    by (simp add: crc_bit_def)
  also have "\<dots> = push_bit (8 - Suc n) (ucast b)"
    using Suc.prems
    by (intro bit_word_eqI) (auto simp: bit_simps Suc_diff_le dest: bit_imp_le_length)
  finally show ?case by (simp add: IH)
qed

text \<open>The table is checked entry by entry against eight steps of the reference.\<close>

definition crc_bits8 :: "u16 \<Rightarrow> u16" where
  "crc_bits8 c = crc_bit (crc_bit (crc_bit (crc_bit (crc_bit (crc_bit (crc_bit (crc_bit c)))))))"

lemma crc_bits8_funpow: "crc_bits8 c = (crc_bit ^^ 8) c"
  by (simp add: crc_bits8_def numeral_eq_Suc)

lemma crc_bit_num:
  "crc_bit 1 = 0x8408"
  "crc_bit (numeral n) =
     (if bit (numeral n :: u16) 0 then drop_bit 1 (numeral n) XOR 0x8408 else drop_bit 1 (numeral n))"
  "crc_bit (- numeral n) =
     (if bit (- numeral n :: u16) 0 then drop_bit 1 (- numeral n) XOR 0x8408 else drop_bit 1 (- numeral n))"
  by (simp_all add: crc_bit_def)

lemma crc_bits8_num:
  "crc_bits8 0 = 0"
  "crc_bits8 1 = crc_bit (crc_bit (crc_bit (crc_bit (crc_bit (crc_bit (crc_bit (crc_bit 1)))))))"
  "crc_bits8 (numeral n) =
     crc_bit (crc_bit (crc_bit (crc_bit (crc_bit (crc_bit (crc_bit (crc_bit (numeral n))))))))"
  "crc_bits8 (- numeral n) =
     crc_bit (crc_bit (crc_bit (crc_bit (crc_bit (crc_bit (crc_bit (crc_bit (- numeral n))))))))"
  by (simp_all only: crc_bits8_def crc_bit_0)

lemma upt_0_numeral:
  "[0..<numeral n] = 0 # [Suc 0..<numeral n]"
  "[Suc 0..<numeral n] = (if Suc 0 < numeral n then Suc 0 # [2..<numeral n] else [])"
  by (simp_all add: upt_rec [of 0] upt_rec [of "Suc 0"] numeral_2_eq_2)

lemma crc_table_itut_ref: "crc_table_itut = map (\<lambda>i. crc_bits8 (of_nat i)) [0..<256]"
  by (simp add: crc_table_itut_def upt_0_numeral crc_bit_num crc_bits8_num)

lemma crc_table_itut_nth: "i < 256 \<Longrightarrow> crc_table_itut ! i = (crc_bit ^^ 8) (of_nat i)"
  by (simp add: crc_table_itut_ref crc_bits8_funpow)

lemma split_bytes: "(x :: u16) = (x AND 0xff) XOR push_bit 8 (ucast (ucast (drop_bit 8 x) :: byte))"
proof (rule bit_word_eqI)
  fix n
  assume "n < LENGTH(16)"
  moreover have "bit (0xff :: u16) n \<longleftrightarrow> n < 8" if "n < 16" for n
    using that bit_mask_iff [where ?'a = u16, of 8 n] by (simp add: mask_eq_exp_minus_1)
  ultimately show "bit x n = bit ((x AND 0xff) XOR push_bit 8 (ucast (ucast (drop_bit 8 x) :: byte))) n"
    by (auto simp: bit_simps)
qed

lemma crc16_byte_ref: "crc16_byte b c = crc_ref_byte b c"
proof -
  define x where "x = c XOR ucast b"
  have low: "unat (x AND 0xff) < 256"
    using word_and_le1 [of x "0xff"] by (simp add: word_le_nat_alt)
  have "crc16_byte b c = (crc_bit ^^ 8) (x AND 0xff) XOR drop_bit 8 c"
    using low by (simp add: crc16_byte_def x_def crc_table_itut_nth)
  also have "drop_bit 8 c = ucast (ucast (drop_bit 8 x) :: byte)"
    by (rule bit_word_eqI) (auto simp: x_def bit_simps dest: bit_imp_le_length)
  also have "(crc_bit ^^ 8) (x AND 0xff) XOR ucast (ucast (drop_bit 8 x) :: byte) = (crc_bit ^^ 8) x"
    using crc_bits_high [of 8 "ucast (drop_bit 8 x)"]
    by (subst (3) split_bytes) (simp add: crc_bits_xor)
  finally show ?thesis by (simp add: crc_ref_byte_def x_def)
qed

section \<open>Properties\<close>

text \<open>
  C7: the table-driven checksum is the bit-serial CRC with the reflected ITU-T polynomial 0x8408, for
  every start value and every data.
\<close>

theorem crc16_bitwise: "crc16 start data = fold crc_ref_byte data start"
  by (induction data arbitrary: start) (simp_all add: crc16_byte_ref)

lemma crc16_append: "crc16 s (xs @ ys) = crc16 (crc16 s xs) ys"
  by (induction xs arbitrary: s) simp_all

lemma inj_crc16_byte_state: "crc16_byte b c = crc16_byte b c' \<longleftrightarrow> c = c'"
proof
  assume "crc16_byte b c = crc16_byte b c'"
  then have "c XOR ucast b = c' XOR ucast b"
    using inj_crc_bits [of 8] by (simp add: crc16_byte_ref crc_ref_byte_def inj_eq)
  then have "(c XOR ucast b) XOR ucast b = (c' XOR ucast b) XOR ucast b" by simp
  then show "c = c'" by (simp add: xor.assoc)
qed simp

lemma inj_crc16_state: "crc16 c xs = crc16 c' xs \<longleftrightarrow> c = c'"
  by (induction xs arbitrary: c c') (simp_all add: inj_crc16_byte_state)

text \<open>Two steps absorb two bytes into one 16-bit value.\<close>

lemma crc16_two: "crc16_byte b (crc16_byte a c) = (crc_bit ^^ 16) (c XOR (ucast a XOR push_bit 8 (ucast b)))"
proof -
  have sh: "ucast b = (crc_bit ^^ 8) (push_bit 8 (ucast b))"
    using crc_bits_high [of 8 b] by simp
  have "crc16_byte b (crc16_byte a c) = (crc_bit ^^ 8) ((crc_bit ^^ 8) (c XOR ucast a) XOR ucast b)"
    by (simp add: crc16_byte_ref crc_ref_byte_def)
  also have "\<dots> = (crc_bit ^^ 8) ((crc_bit ^^ 8) ((c XOR ucast a) XOR push_bit 8 (ucast b)))"
    by (subst sh) (simp add: crc_bits_xor)
  also have "\<dots> = (crc_bit ^^ 16) ((c XOR ucast a) XOR push_bit 8 (ucast b))"
    using funpow_add [of 8 8 crc_bit] by (simp add: fun_eq_iff)
  finally show ?thesis by (simp add: xor.assoc)
qed

lemma pack_two_inject:
  "(ucast a XOR push_bit 8 (ucast b) :: u16) = ucast a' XOR push_bit 8 (ucast b') \<longleftrightarrow>
     (a :: byte) = a' \<and> (b :: byte) = b'"
proof -
  have "ucast a XOR push_bit 8 (ucast b) = de16 b a" for a b :: byte
    by (rule bit_word_eqI) (auto simp: de16_def bit_simps dest: bit_imp_le_length)
  then show ?thesis by auto
qed

lemma crc16_two_inject:
  "crc16_byte b (crc16_byte a c) = crc16_byte b' (crc16_byte a' c) \<longleftrightarrow> a = a' \<and> b = b'"
proof -
  have xor_cancel: "x XOR y = x XOR z \<longleftrightarrow> y = z" for x y z :: u16
    by (auto simp: bit_eq_iff bit_xor_iff)
  show ?thesis
    unfolding crc16_two inj_eq [OF inj_crc_bits] xor_cancel by (rule pack_two_inject)
qed

text \<open>
  C15: an error confined to two adjacent bytes (so every error burst inside them) always changes the
  checksum: with the rest of the data equal, the checksums agree exactly when the two bytes agree.
\<close>

theorem crc16_detects_burst:
  "crc16 s (pre @ [a, b] @ post) = crc16 s (pre @ [a', b'] @ post) \<longleftrightarrow> a = a' \<and> b = b'"
  by (simp add: crc16_append inj_crc16_state crc16_two_inject)

lemma crc16_update_two:
  assumes "Suc j < length g"
  shows "crc16 s (g[j := a, Suc j := b]) = crc16 s g \<longleftrightarrow> a = g ! j \<and> b = g ! Suc j"
proof -
  define pre post where "pre = take j g" and "post = drop (j + 2) g"
  have g: "g = pre @ [g ! j, g ! Suc j] @ post"
    using assms by (simp add: pre_def post_def Cons_nth_drop_Suc id_take_nth_drop [symmetric])
  have len: "length pre = j" using assms by (simp add: pre_def)
  have "g[j := a, Suc j := b] = pre @ [a, b] @ post"
    by (subst g) (simp add: list_update_append len)
  then show ?thesis
    by (subst (2) g) (simp add: crc16_append inj_crc16_state crc16_two_inject)
qed

text \<open>Evaluation of the checksum on concrete bytes.\<close>

lemma crc16_byte_eval: "crc16_byte b c = crc_bits8 (c XOR ucast b)"
  by (simp add: crc16_byte_ref crc_ref_byte_def crc_bits8_funpow)

lemmas crc_eval = crc16_byte_eval crc_bits8_num crc_bit_num

text \<open>
  The four-argument overload does not compute this checksum: its running value is kept in a
  \<open>char\<close>, so with an unsigned \<open>char\<close> its result is always below 256, and with a signed \<open>char\<close> its upper
  byte only repeats the sign; on the content of a current-data request it differs from the
  three-argument overload either way.
\<close>

theorem crc16_offset_truncates:
  "unat (crc16_offset False start data off len) < 256 \<and>
   crc16_offset True start data off len = scast (ucast (crc16_offset True start data off len) :: byte) \<and>
   crc16_offset char_signed 0xffff [0x72, 0x61, 0x03] 0 3 \<noteq> crc16 0xffff [0x72, 0x61, 0x03]"
proof (intro conjI)
  show "unat (crc16_offset False start data off len) < 256"
    by (simp add: crc16_offset_def ushort_of_char_def)
  have "scast (ucast (scast c :: u16) :: byte) = (scast c :: u16)" for c :: byte
    by (rule bit_word_eqI) (auto simp: bit_simps)
  then show "crc16_offset True start data off len = scast (ucast (crc16_offset True start data off len) :: byte)"
    by (simp add: crc16_offset_def ushort_of_char_def)
  show "crc16_offset char_signed 0xffff [0x72, 0x61, 0x03] 0 3 \<noteq> crc16 0xffff [0x72, 0x61, 0x03]"
    by (cases char_signed) (simp_all add: crc16_offset_def ushort_of_char_def char_of_ushort_def crc_eval)
qed

end
