(* ===== verification/Posix.thy ===== *)
theory Posix
  imports Prelude
begin

text \<open>
  The environment of the agent: the operating system, the network and the other threads.

  A run is observed against a finite \<open>script\<close>: one \<open>reply\<close> for every system call whose result the code
  uses or which may block.  A reply fixes the return value, \<open>errno\<close>, the bytes delivered, the time
  the call took, and the updates other threads made to the shared state meanwhile.  Theorems
  quantify over the script, so they hold for every behaviour of the environment.  A call made after
  the script has ended is \<open>Pending\<close>.  Calls whose result the code ignores only leave an event in
  \<open>trace\<close>, in which everything the agent does to the outside appears in order.
\<close>

section \<open>struct timeval\<close>

record timeval =
  tv_sec :: int
  tv_usec :: int

definition tv_of_usec :: "int \<Rightarrow> timeval" where
  "tv_of_usec t = \<lparr>tv_sec = t div 1000000, tv_usec = t mod 1000000\<rparr>"

definition usec_of_tv :: "timeval \<Rightarrow> int" where
  "usec_of_tv tv = tv_sec tv * 1000000 + tv_usec tv"

definition tv_normal :: "timeval \<Rightarrow> bool" where
  "tv_normal tv = (0 \<le> tv_usec tv \<and> tv_usec tv < 1000000)"

text \<open>The macros \<open>timersub\<close> and \<open>timercmp\<close> of \<open>sys/time.h\<close>.\<close>

definition timersub :: "timeval \<Rightarrow> timeval \<Rightarrow> timeval" where
  "timersub a b =
     (let s = tv_sec a - tv_sec b; u = tv_usec a - tv_usec b
      in if u < 0 then \<lparr>tv_sec = s - 1, tv_usec = u + 1000000\<rparr> else \<lparr>tv_sec = s, tv_usec = u\<rparr>)"

definition timer_less :: "timeval \<Rightarrow> timeval \<Rightarrow> bool" where
  "timer_less a b = (if tv_sec a = tv_sec b then tv_usec a < tv_usec b else tv_sec a < tv_sec b)"

lemma usec_of_tv_of_usec [simp]: "usec_of_tv (tv_of_usec t) = t"
  by (simp add: usec_of_tv_def tv_of_usec_def)

lemma tv_normal_of_usec [simp]: "tv_normal (tv_of_usec t)"
  by (simp add: tv_normal_def tv_of_usec_def)

lemma usec_timersub [simp]: "usec_of_tv (timersub a b) = usec_of_tv a - usec_of_tv b"
  by (simp add: usec_of_tv_def timersub_def Let_def algebra_simps)

lemma tv_normal_timersub: "tv_normal a \<Longrightarrow> tv_normal b \<Longrightarrow> tv_normal (timersub a b)"
  by (auto simp: tv_normal_def timersub_def Let_def)

lemma timer_less_usec:
  "tv_normal a \<Longrightarrow> tv_normal b \<Longrightarrow> timer_less a b \<longleftrightarrow> usec_of_tv a < usec_of_tv b"
  unfolding tv_normal_def timer_less_def usec_of_tv_def by (cases "tv_sec a = tv_sec b") auto

lemma tv_sec_normal: "tv_normal tv \<Longrightarrow> tv_sec tv = usec_of_tv tv div 1000000"
  by (simp add: tv_normal_def usec_of_tv_def)

section \<open>Replies, events, the world\<close>

text \<open>What another thread of the agent does to the shared state while a call blocks.\<close>

datatype interf =
    IPush packet
  | IPop
  | IPushStatus packet
  | IPopStatus
  | IPower bool
  | IControlDone bool
  | IExtErr bool
  | IInErr bool

record reply =
  r_ret :: int
  r_errno :: int
  r_buf :: "byte list"
  r_num :: nat
  r_dt :: nat
  r_inf :: "interf list"

datatype event =
    EvSocket
  | EvSockTimeout int int
  | EvGetAddr string int
  | EvConnect int string int
  | EvShutdown int
  | EvClose int
  | EvSelect int
  | EvSockError int
  | EvRecv int nat
  | EvSend int "byte list"
  | EvOpen string
  | EvSetCom int
  | EvFlush int
  | EvDrain int
  | EvRead int nat
  | EvWrite int "byte list"
  | EvLock int
  | EvUnlock int
  | EvSleep int
  | EvSetTime int
  | EvSystem string
  | EvThread string
  | EvInput int

record world =
  now :: int
  script :: "reply list"
  trace :: "event list"
  pending :: "interf list"
  files :: "string \<Rightarrow> byte list option"

text \<open>A blocking call or a call whose result is used consumes one reply.\<close>

definition syscall :: "event \<Rightarrow> ('z world_scheme, reply) prog" where
  "syscall ev w =
     (case script w of
        [] \<Rightarrow> (Pending, w)
      | r # rs \<Rightarrow>
          (Val r, w\<lparr>script := rs, trace := trace w @ [ev], now := now w + int (r_dt r),
                   pending := pending w @ r_inf r\<rparr>))"

definition emit :: "event \<Rightarrow> ('z world_scheme, unit) prog" where
  "emit ev = modify (\<lambda>w. w\<lparr>trace := trace w @ [ev]\<rparr>)"

definition gettimeofday :: "'z world_scheme \<Rightarrow> timeval" where
  "gettimeofday w = tv_of_usec (now w)"

definition wrap32 :: "int \<Rightarrow> int" where
  "wrap32 x = (x + 2147483648) mod 4294967296 - 2147483648"

definition uwrap32 :: "int \<Rightarrow> int" where
  "uwrap32 x = x mod 4294967296"

text \<open>\<open>usleep\<close> takes an unsigned 32-bit count of microseconds, \<open>sleep\<close> an unsigned count of seconds.\<close>

definition usleep :: "int \<Rightarrow> ('z world_scheme, unit) prog" where
  "usleep n =
     bnd (syscall (EvSleep (uwrap32 n)))
       (\<lambda>_. modify (\<lambda>w. w\<lparr>now := now w + uwrap32 n\<rparr>))"

definition sleep :: "int \<Rightarrow> ('z world_scheme, unit) prog" where
  "sleep n =
     bnd (syscall (EvSleep (uwrap32 n * 1000000)))
       (\<lambda>_. modify (\<lambda>w. w\<lparr>now := now w + uwrap32 n * 1000000\<rparr>))"

text \<open>\<open>settimeofday\<close> sets the clock when it succeeds.\<close>

definition settimeofday :: "timeval \<Rightarrow> ('z world_scheme, int) prog" where
  "settimeofday tv =
     bnd (syscall (EvSetTime (usec_of_tv tv)))
       (\<lambda>r. thn (modify (\<lambda>w. if r_ret r = 0 then w\<lparr>now := usec_of_tv tv\<rparr> else w)) (ret (r_ret r)))"

definition system :: "string \<Rightarrow> ('z world_scheme, int) prog" where
  "system c = bnd (syscall (EvSystem c)) (\<lambda>r. ret (r_ret r))"

text \<open>
  The replies still to come, and the bound for the loops: a reply counts for itself and for each update
  of another thread it brings.
\<close>

definition replies :: "'z world_scheme \<Rightarrow> nat" where
  "replies w = length (script w)"

definition left :: "'z world_scheme \<Rightarrow> nat" where
  "left w = sum_list (map (\<lambda>r. Suc (length (r_inf r))) (script w)) + length (pending w)"

lemma wrap32_id: "-2147483648 \<le> x \<Longrightarrow> x < 2147483648 \<Longrightarrow> wrap32 x = x"
  by (simp add: wrap32_def)

lemma wrap32_range: "-2147483648 \<le> wrap32 x \<and> wrap32 x < 2147483648"
  by (simp add: wrap32_def)

lemma uwrap32_id: "0 \<le> x \<Longrightarrow> x < 4294967296 \<Longrightarrow> uwrap32 x = x"
  by (simp add: uwrap32_def)

section \<open>Consumption and frame facts\<close>

text \<open>
  \<open>quiet\<close>: a call takes replies from the front of the script, only appends to the trace, and to the pending
  interference what these replies brought, and touches neither the files nor anything that extends
  the environment.
\<close>

definition quiet :: "'z world_scheme \<Rightarrow> 'z world_scheme \<Rightarrow> bool" where
  "quiet w w' =
     (left w' \<le> left w \<and> (\<exists>evs. trace w' = trace w @ evs) \<and>
      (\<exists>rs. script w = rs @ script w' \<and> pending w' = pending w @ concat (map r_inf rs)) \<and>
      files w' = files w \<and> world.more w' = world.more w)"

lemma preorder_quiet [simp, intro]: "preorder_rel quiet"
  unfolding preorder_rel_def
proof (intro conjI reflpI transpI)
  show "quiet w w" for w :: "'a world_scheme" by (simp add: quiet_def)
  show "quiet u w" if "quiet u v" "quiet v w" for u v w :: "'a world_scheme"
  proof -
    from that obtain rs rs' where
      "script u = rs @ script v" "pending v = pending u @ concat (map r_inf rs)"
      "script v = rs' @ script w" "pending w = pending v @ concat (map r_inf rs')" unfolding quiet_def by blast
    then have "script u = (rs @ rs') @ script w" "pending w = pending u @ concat (map r_inf (rs @ rs'))" by simp_all
    with that show ?thesis unfolding quiet_def by (metis append.assoc order_trans)
  qed
qed

text \<open>The part of \<open>quiet\<close> about the replies taken.\<close>

definition consumed :: "'z world_scheme \<Rightarrow> 'y world_scheme \<Rightarrow> bool" where
  "consumed w w' = (\<exists>rs. script w = rs @ script w' \<and> pending w' = pending w @ concat (map r_inf rs))"

lemma consumed_eq: "script w' = script w \<Longrightarrow> pending w' = pending w \<Longrightarrow> consumed w w'"
  by (simp add: consumed_def)

lemma consumed_refl [simp]: "consumed w w"
  by (simp add: consumed_eq)

lemma consumed_trans [trans]: "consumed u v \<Longrightarrow> consumed v w \<Longrightarrow> consumed u w"
  unfolding consumed_def by (elim exE) (rule_tac x = "rs @ rsa" in exI, simp)

lemma quiet_consumed: "quiet w w' \<Longrightarrow> consumed w w'"
  by (simp add: quiet_def consumed_def)

lemma syscall_Val: "syscall ev w = (Val r, w') \<Longrightarrow> left w' < left w"
  by (auto simp: syscall_def left_def split: list.splits)

lemma syscall_eq_Val:
  "syscall ev w = (Val r, w') \<longleftrightarrow>
     (\<exists>rs. script w = r # rs \<and>
        w' = w\<lparr>script := rs, trace := trace w @ [ev], now := now w + int (r_dt r), pending := pending w @ r_inf r\<rparr>)"
  by (auto simp: syscall_def split: list.splits)

lemma syscall_Cons [prog_simps]:
  "script w = r # rs \<Longrightarrow>
     syscall ev w =
       (Val r, w\<lparr>script := rs, trace := trace w @ [ev], now := now w + int (r_dt r), pending := pending w @ r_inf r\<rparr>)"
  by (simp add: syscall_def)

lemma syscall_no_Throw [simp]: "syscall ev w \<noteq> (Throw e, w')"
  by (auto simp: syscall_def split: list.splits)

lemma moves_quiet_syscall [hoare_rules]: "moves quiet (syscall ev)"
proof (rule movesI)
  fix w :: "'a world_scheme"
  show "quiet w (snd (syscall ev w))"
  proof (cases "script w")
    case Nil
    then show ?thesis by (simp add: syscall_def quiet_def)
  next
    case (Cons r rs)
    then show ?thesis by (auto simp: syscall_def quiet_def left_def intro!: exI [of _ "[r]"])
  qed
qed

lemma moves_quiet_emit [hoare_rules]: "moves quiet (emit ev)"
  by (auto simp: moves_def emit_def modify_def quiet_def left_def)

lemma moves_quiet_now [hoare_rules]: "moves quiet (modify (\<lambda>w. w\<lparr>now := f w\<rparr>))"
  by (auto simp: moves_def modify_def quiet_def left_def)

lemma moves_quiet_usleep [hoare_rules]: "moves quiet (usleep n)"
  unfolding usleep_def by (intro hoare_rules) auto

lemma moves_quiet_sleep [hoare_rules]: "moves quiet (sleep n)"
  unfolding sleep_def by (intro hoare_rules) auto

lemma moves_quiet_settimeofday [hoare_rules]: "moves quiet (settimeofday tv)"
  unfolding settimeofday_def
  by (intro hoare_rules preorder_quiet moves_modify) (auto simp: quiet_def left_def)

lemma moves_quiet_system [hoare_rules]: "moves quiet (system c)"
  unfolding system_def by (intro hoare_rules) auto

lemma no_undef_syscall [safe_rules]: "no_undef (syscall ev)"
  by (simp add: no_undef_def syscall_def split: list.splits)

lemma no_undef_posix [safe_rules]:
  "no_undef (emit ev)" "no_undef (usleep n)" "no_undef (sleep n)" "no_undef (settimeofday tv)" "no_undef (system c)"
  unfolding emit_def usleep_def sleep_def settimeofday_def system_def by (intro safe_rules)+

section \<open>Objects beside the environment\<close>

text \<open>
  A method of an object is a program over the environment and the object.  \<open>obj_le\<close>: it only consumes
  behaviour of the environment.
\<close>

definition obj_le :: "'z world_scheme \<times> 'o \<Rightarrow> 'z world_scheme \<times> 'o \<Rightarrow> bool" where
  "obj_le s s' = quiet (fst s) (fst s')"

lemma preorder_obj_le [simp, intro]: "preorder_rel obj_le"
  using preorder_quiet by (auto simp: preorder_rel_def obj_le_def reflp_def transp_def)

lemma quiet_refl [simp]: "quiet w w"
  using preorder_quiet by (auto simp: preorder_rel_def reflp_def)

lemma moves_obj_outer [hoare_rules]: "moves quiet m \<Longrightarrow> moves obj_le (outer m)"
  by (rule movesI) (auto simp: obj_le_def outer_def split: prod.splits dest: movesD)

lemma moves_obj_modify: "(\<And>w p. fst (f (w, p)) = w) \<Longrightarrow> moves obj_le (modify f)"
  by (rule moves_modify) (metis obj_le_def prod.collapse quiet_refl)

lemma bnd_syscall_left:
  assumes "bnd (outer (syscall ev)) f s = (Val x, s')" "\<And>r. moves obj_le (f r)"
  shows "left (fst s') < left (fst s)"
proof -
  obtain r s1 where r: "outer (syscall ev) s = (Val r, s1)" "f r s1 = (Val x, s')"
    using assms(1) by (auto simp: bnd_eq_Val)
  then have "left (fst s1) < left (fst s)" by (auto simp: outer_def split: prod.splits dest: syscall_Val)
  moreover have "left (fst s') \<le> left (fst s1)"
    using movesD [OF assms(2) r(2)] by (simp add: obj_le_def quiet_def)
  ultimately show ?thesis by simp
qed

lemma moves_obj_left: "moves obj_le m \<Longrightarrow> moves (\<lambda>s s'. left (fst s') \<le> left (fst s)) m"
  by (simp add: moves_def obj_le_def quiet_def)

lemma eats_outer_syscall: "eats (\<lambda>s. left (fst s)) (outer (syscall ev))"
  by (auto simp: eats_def outer_def split: prod.splits dest: syscall_Val)

lemma eats_sleep: "eats left (sleep n)" "eats left (usleep n)"
  by (auto simp: eats_def sleep_def usleep_def bnd_eq_Val modify_def left_def dest!: syscall_Val)

text \<open>A plain reply and a fresh world, for concrete runs.\<close>

definition world0 :: "reply list \<Rightarrow> world" where
  "world0 rs = \<lparr>now = 0, script = rs, trace = [], pending = [], files = Map.empty\<rparr>"

definition reply0 :: "int \<Rightarrow> reply" where
  "reply0 n = \<lparr>r_ret = n, r_errno = 0, r_buf = [], r_num = 0, r_dt = 0, r_inf = []\<rparr>"

end
