(* ===== verification/Channel.thy ===== *)
theory Channel
  imports Posix
begin

text \<open>
  The abstract class \<open>Channel\<close> (Channel.h, Channel.cpp): a record of its virtual methods over a state
  \<open>'s\<close>, which the serial port and the TCP port fill in with their own code.  \<open>ch_left\<close> is how much
  behaviour of the environment is still to come in a state; it bounds the reading loops.

  The locale \<open>channel\<close> is the contract the frame layer relies on; \<open>SerialPort\<close> and \<open>TCPPort\<close>
  interpret it.
\<close>

record 's channel =
  ch_Open :: "('s, int) prog"
  ch_Read :: "nat \<Rightarrow> ('s, byte list) prog"
  ch_Write :: "byte list \<Rightarrow> ('s, int) prog"
  ch_Lock :: "('s, unit) prog"
  ch_Unlock :: "('s, unit) prog"
  ch_SetTimeOut :: "int \<Rightarrow> ('s, unit) prog"
  ch_IsOpen :: "'s \<Rightarrow> bool"
  ch_left :: "'s \<Rightarrow> nat"

text \<open>\<open>Channel::Channel\<close>: the time of the last action starts at zero.\<close>

definition Channel_tmLastAction :: timeval where
  "Channel_tmLastAction = \<lparr>tv_sec = 0, tv_usec = 0\<rparr>"

locale channel =
  fixes ch :: "'s channel"
  assumes read_len: "ch_Read ch n s = (Val bs, s') \<Longrightarrow> length bs \<le> n"
    and read_left: "ch_Read ch n s = (Val bs, s') \<Longrightarrow> 0 < n \<Longrightarrow> ch_left ch s' < ch_left ch s"
    and read_no_undef: "no_undef (ch_Read ch n)"
    and write_left: "moves (\<lambda>s s'. ch_left ch s' \<le> ch_left ch s) (ch_Write ch bs)"
    and timeout_left: "moves (\<lambda>s s'. ch_left ch s' \<le> ch_left ch s) (ch_SetTimeOut ch t)"
    and timeout_Val: "\<exists>s'. ch_SetTimeOut ch t s = (Val (), s')"

end
