(* ===== verification/Packet.thy ===== *)
theory Packet
  imports CRC16 Channel
begin

text \<open>
  \<open>class Packet\<close> (Packet.h, Packet.cpp): frames of the protocol between the monitoring post, the agent
  and the server.  The object is its \<open>strCache\<close>, a byte string.

  Fields of the packed structs are read by offset from the start of the string: \<open>FrameHead\<close> takes
  offsets 0 to 2, the command word 3 and 4, and so on.  A read past the terminating NUL is undefined
  behaviour (\<open>None\<close>).
\<close>

section \<open>Commands and symbols\<close>

datatype CommunicationCommand =
    DataRequest | MPHealthCheck | GetCondition | SetCondition | GetPreAmp | GetADCSetting
  | GetSpectrumSetting | GetNetworkSetting | SetLowHiDoesRateAlarmReset
  | SetTransmitUnitHardwareReset | SetTransmitUnitReset | SetTransmitUnitMemortClear
  | GetTime | SetTime | RequestDoseRate | ConfirmDoseRate | RequestSpectrum | ConfirmSpectrum
  | RequestDoseRateAlarm | ConfirmDoseRateAlarm | Request40KAction | Confirm40KAction
  | RequestGPS | ConfirmGPS | RequestDataCancel | DataTerminate | SetDataPort | SetControlPort
  | ControlPortHealthCheck | CMD_END

definition cmds :: "CommunicationCommand list" where
  "cmds =
     [DataRequest, MPHealthCheck, GetCondition, SetCondition, GetPreAmp, GetADCSetting,
      GetSpectrumSetting, GetNetworkSetting, SetLowHiDoesRateAlarmReset,
      SetTransmitUnitHardwareReset, SetTransmitUnitReset, SetTransmitUnitMemortClear,
      GetTime, SetTime, RequestDoseRate, ConfirmDoseRate, RequestSpectrum, ConfirmSpectrum,
      RequestDoseRateAlarm, ConfirmDoseRateAlarm, Request40KAction, Confirm40KAction,
      RequestGPS, ConfirmGPS, RequestDataCancel, DataTerminate, SetDataPort, SetControlPort,
      ControlPortHealthCheck]"

fun cmdText :: "CommunicationCommand \<Rightarrow> string" where
  "cmdText DataRequest = ''ra''"
| "cmdText MPHealthCheck = ''wa''"
| "cmdText GetCondition = ''ca''"
| "cmdText SetCondition = ''cA''"
| "cmdText GetPreAmp = ''cb''"
| "cmdText GetADCSetting = ''cc''"
| "cmdText GetSpectrumSetting = ''cd''"
| "cmdText GetNetworkSetting = ''ce''"
| "cmdText SetLowHiDoesRateAlarmReset = ''cF''"
| "cmdText SetTransmitUnitHardwareReset = ''cH''"
| "cmdText SetTransmitUnitReset = ''cI''"
| "cmdText SetTransmitUnitMemortClear = ''cJ''"
| "cmdText GetTime = ''ck''"
| "cmdText SetTime = ''cK''"
| "cmdText RequestDoseRate = ''ha''"
| "cmdText ConfirmDoseRate = ''hA''"
| "cmdText RequestSpectrum = ''hc''"
| "cmdText ConfirmSpectrum = ''hC''"
| "cmdText RequestDoseRateAlarm = ''hd''"
| "cmdText ConfirmDoseRateAlarm = ''hD''"
| "cmdText Request40KAction = ''hf''"
| "cmdText Confirm40KAction = ''hF''"
| "cmdText RequestGPS = ''hg''"
| "cmdText ConfirmGPS = ''hG''"
| "cmdText RequestDataCancel = ''hy''"
| "cmdText DataTerminate = ''hz''"
| "cmdText SetDataPort = ''pA''"
| "cmdText SetControlPort = ''pB''"
| "cmdText ControlPortHealthCheck = ''wb''"
| "cmdText CMD_END = ''''"

definition cmdWord :: "CommunicationCommand \<Rightarrow> byte list" where
  "cmdWord c = bytes_of (cmdText c)"

definition SOH :: byte where "SOH = 0x01"
definition STX :: byte where "STX = 0x02"
definition ETX :: byte where "ETX = 0x03"
definition EOT :: byte where "EOT = 0x04"
definition ACK :: byte where "ACK = 0x06"
definition NAK :: byte where "NAK = 0x15"

lemmas symbol_defs = SOH_def STX_def ETX_def EOT_def ACK_def NAK_def

section \<open>Building and checking frames\<close>

definition BuildPacket :: "byte list \<Rightarrow> byte \<Rightarrow> packet" where
  "BuildPacket szContent Machine =
     (let strCache = [SOH] @ [Machine] @ [STX] @ szContent @ [ETX];
          crc = crc16 0xffff (take (length szContent + 1) (drop 3 strCache))
      in strCache @ [ucast (drop_bit 8 crc AND 0x00ff)] @ [ucast (crc AND 0x00ff)] @ [EOT])"

definition isFrameCRCOK :: "packet \<Rightarrow> bool" where
  "isFrameCRCOK strCache =
     (if length strCache < 9 then False
      else
        let tail = length strCache - 1 in
        if strCache ! tail = EOT \<and> strCache ! (tail - 3) = ETX
        then
          let crc = crc16 0xffff (take (length strCache - 6) (drop 3 strCache));
              CRC = de16 (strCache ! (tail - 2)) (strCache ! (tail - 1))
          in crc = CRC
        else False)"

definition slipToNextStartToken :: "packet \<Rightarrow> packet" where
  "slipToNextStartToken strCache =
     (case find_sub [SOH] (drop 1 strCache) of
        Some p \<Rightarrow> drop (p + 1) strCache
      | None \<Rightarrow> [])"

text \<open>\<open>isValidFrame\<close>: the result and the new cache.  Its \<open>continue\<close> leaves the \<open>do ... while (false)\<close>.\<close>

definition isValidFrame :: "packet \<Rightarrow> bool \<times> packet" where
  "isValidFrame strCache =
     (if isFrameCRCOK strCache then (True, strCache)
      else if length strCache > 4056 then (False, slipToNextStartToken strCache)
      else (False, strCache))"

definition Packet_Ack :: "bool \<Rightarrow> byte \<Rightarrow> CommunicationCommand \<Rightarrow> u16 \<Rightarrow> packet option" where
  "Packet_Ack bAck Machine eCmd nNum =
     (if eCmd = CMD_END then None
      else Some ([if bAck then ACK else NAK] @ [Machine] @ cmdWord eCmd @
             (if nNum \<noteq> 0 then [ucast (drop_bit 8 nNum AND 0x0ff), ucast (nNum AND 0x0ff)] else [])))"

text \<open>The text \<open>Dump\<close> writes: three characters per byte, until the buffer holds more than 1000.\<close>

definition hexdigit :: "nat \<Rightarrow> char" where
  "hexdigit n = (if n < 10 then char_of (48 + n) else char_of (55 + n))"

fun Dump_loop :: "string \<Rightarrow> byte list \<Rightarrow> string" where
  "Dump_loop buf [] = buf"
| "Dump_loop buf (b # bs) =
     (let buf = buf @ [hexdigit (unat b div 16), hexdigit (unat b mod 16), CHR '' '']
      in if length buf > 1000 then buf else Dump_loop buf bs)"

definition Dump :: "packet \<Rightarrow> string" where
  "Dump strCache = Dump_loop [] strCache"

section \<open>Fields\<close>

definition GetDataNo :: "packet \<Rightarrow> u16 option" where
  "GetDataNo strCache = (if length strCache < 1 then Some 0 else peek16 strCache 7)"

definition GetInterval :: "packet \<Rightarrow> int option" where
  "GetInterval strCache =
     (if length strCache < 1 then Some 0 else map_option (\<lambda>b. int (unat b)) (peek strCache 7))"

definition GetAssignedPort :: "packet \<Rightarrow> u16 option" where
  "GetAssignedPort strCache = (if length strCache < 1 then Some 0 else peek16 strCache 5)"

definition IsAckNo :: "packet \<Rightarrow> u16 \<Rightarrow> bool option" where
  "IsAckNo strCache No =
     (case peek strCache 0 of
        None \<Rightarrow> None
      | Some a \<Rightarrow> if a = ACK then map_option (\<lambda>n. n = No) (peek16 strCache 4) else Some False)"

definition GetStatus :: "packet \<Rightarrow> u32 option" where
  "GetStatus strCache = (if length strCache > 0 then peek32 strCache 15 else Some 0)"

definition GetAckNo :: "packet \<Rightarrow> u16 option" where
  "GetAckNo strCache = (if length strCache = 4 then Some 0 else peek16 strCache 4)"

definition IsValidAck :: "packet \<Rightarrow> bool" where
  "IsValidAck strCache = (strCache \<noteq> [] \<and> (strCache ! 0 = ACK \<or> strCache ! 0 = NAK))"

definition IsAck :: "packet \<Rightarrow> bool" where
  "IsAck strCache = (peek strCache 0 = Some ACK)"

definition SetPacket :: "byte list \<Rightarrow> packet" where
  "SetPacket szBuf = szBuf"

text \<open>
  The search of the command table: the first entry whose two characters match offsets 3 and 4.
  Offset 4 is only read when offset 3 matched (short-circuit evaluation).
\<close>

fun cmd_search :: "packet \<Rightarrow> CommunicationCommand list \<Rightarrow> CommunicationCommand option" where
  "cmd_search strCache [] = Some CMD_END"
| "cmd_search strCache (c # cs) =
     (case peek strCache 3 of
        None \<Rightarrow> None
      | Some a \<Rightarrow>
          if a = cmdWord c ! 0 then
            (case peek strCache 4 of
               None \<Rightarrow> None
             | Some b \<Rightarrow> if b = cmdWord c ! 1 then Some c else cmd_search strCache cs)
          else cmd_search strCache cs)"

definition FrameCommandType :: "packet \<Rightarrow> CommunicationCommand option" where
  "FrameCommandType strCache = (if length strCache > 4 then cmd_search strCache cmds else Some CMD_END)"

definition IsCommand :: "byte \<Rightarrow> byte \<Rightarrow> CommunicationCommand \<Rightarrow> bool" where
  "IsCommand c0 c1 n = (c0 = cmdWord n ! 0 \<and> c1 = cmdWord n ! 1)"

definition IsValidStatus :: "packet \<Rightarrow> bool option" where
  "IsValidStatus strCache =
     (if length strCache > 0 then
        (case (peek strCache 3, peek strCache 4) of
           (Some a, Some b) \<Rightarrow> Some (IsCommand a b MPHealthCheck)
         | _ \<Rightarrow> None)
      else Some False)"

text \<open>\<open>mktime\<close> on a normalised calendar date, in the time zone of the device (UTC).\<close>

definition days_from_civil :: "int \<Rightarrow> int \<Rightarrow> int \<Rightarrow> int" where
  "days_from_civil y mon mday =
     (let y' = y + mon div 12; m = mon mod 12;
          yy = (if m < 2 then y' - 1 else y');
          mp = (if m < 2 then m + 10 else m - 2)
      in 365 * yy + yy div 4 - yy div 100 + yy div 400 + (153 * mp + 2) div 5 + (mday - 1) - 719468)"

definition mktime :: "int \<Rightarrow> int \<Rightarrow> int \<Rightarrow> int \<Rightarrow> int \<Rightarrow> int \<Rightarrow> int" where
  "mktime tm_year tm_mon tm_mday tm_hour tm_min tm_sec =
     days_from_civil (tm_year + 1900) tm_mon tm_mday * 86400 + tm_hour * 3600 + tm_min * 60 + tm_sec"

definition GetMPTime :: "packet \<Rightarrow> int option" where
  "GetMPTime strCache =
     (if length strCache = 0 then Some 0
      else
        case (peek strCache 3, peek strCache 4) of
          (Some c0, Some c1) \<Rightarrow>
            if c0 \<noteq> cmdWord GetTime ! 0 \<or> c1 \<noteq> cmdWord GetTime ! 1 then Some 0
            else
              (case (peek16 strCache 7, peek strCache 9, peek strCache 10, peek strCache 11,
                     peek strCache 12, peek strCache 13) of
                 (Some year, Some month, Some day, Some hour, Some minute, Some second) \<Rightarrow>
                   Some (mktime (int (unat year) - 1900) (int (unat month) - 1) (int (unat day))
                           (int (unat hour)) (int (unat minute)) (int (unat second)))
               | _ \<Rightarrow> None)
        | _ \<Rightarrow> None)"

section \<open>Sending and receiving\<close>

definition SendTo :: "'s channel \<Rightarrow> packet \<Rightarrow> ('s, int) prog" where
  "SendTo port strCache = ch_Write port strCache"

text \<open>\<open>n = port.Read(&buff, 1)\<close>: \<open>None\<close> when \<open>n\<close> is zero.\<close>

definition read1 :: "'s channel \<Rightarrow> ('s \<times> packet, byte option) prog" where
  "read1 port =
     bnd (outer (ch_Read port 1))
       (\<lambda>bs. case bs of [] \<Rightarrow> ret None | b # _ \<Rightarrow> ret (Some b))"

definition clear_cache :: "('s \<times> packet, unit) prog" where
  "clear_cache = modify (\<lambda>(s, c). (s, []))"

definition append_cache :: "byte \<Rightarrow> ('s \<times> packet, unit) prog" where
  "append_cache b = modify (\<lambda>(s, c). (s, c @ [b]))"

definition check_frame :: "('s \<times> packet, bool) prog" where
  "check_frame p = (Val (fst (isValidFrame (snd p))), (fst p, snd (isValidFrame (snd p))))"

definition pleft :: "'s channel \<Rightarrow> 's \<times> packet \<Rightarrow> nat" where
  "pleft port p = ch_left port (fst p)"

text \<open>\<open>while (buff != start && n) n = port.Read(&buff, 1)\<close>: the start byte, or \<open>None\<close> when the data ended.\<close>

definition scan_start_body :: "'s channel \<Rightarrow> (byte \<Rightarrow> bool) \<Rightarrow> byte \<Rightarrow> ('s \<times> packet, byte + byte option) prog" where
  "scan_start_body port start b =
     (if start b then ret (Inr (Some b))
      else bnd (read1 port) (\<lambda>r. case r of None \<Rightarrow> ret (Inr None) | Some b' \<Rightarrow> ret (Inl b')))"

definition scan_start :: "'s channel \<Rightarrow> (byte \<Rightarrow> bool) \<Rightarrow> byte \<Rightarrow> ('s \<times> packet, byte option) prog" where
  "scan_start port start = loop (pleft port) (scan_start_body port start)"

text \<open>
  The inner loop of \<open>ReceiveFrameFrom\<close>: \<open>True\<close> when it returns with a valid frame, \<open>False\<close> when the
  data ended.  It leaves with \<open>n == 0\<close> only, so the enclosing \<open>do ... while (n)\<close> runs its body once.
\<close>

definition collect_body :: "'s channel \<Rightarrow> byte \<Rightarrow> ('s \<times> packet, byte + bool) prog" where
  "collect_body port b =
     thn (append_cache b)
       (bnd (if b = EOT then check_frame else ret False)
         (\<lambda>v. if v then ret (Inr True)
              else bnd (read1 port) (\<lambda>r. case r of None \<Rightarrow> ret (Inr False) | Some b' \<Rightarrow> ret (Inl b'))))"

definition collect :: "'s channel \<Rightarrow> byte \<Rightarrow> ('s \<times> packet, bool) prog" where
  "collect port = loop (pleft port) (collect_body port)"

text \<open>The final \<open>while (!strCache.empty()) { slipToNextStartToken(); if (isFrameCRCOK()) return; }\<close>.\<close>

lemma length_slip: "xs \<noteq> [] \<Longrightarrow> length (slipToNextStartToken xs) < length xs"
  by (auto simp: slipToNextStartToken_def split: option.splits)

function resync :: "packet \<Rightarrow> packet" where
  "resync strCache =
     (if strCache = [] then []
      else let c = slipToNextStartToken strCache in if isFrameCRCOK c then c else resync c)"
  by pat_completeness auto
termination
  by (relation "measure length") (auto simp: length_slip)

declare resync.simps [simp del]

definition ReceiveFrameFrom :: "'s channel \<Rightarrow> ('s \<times> packet, unit) prog" where
  "ReceiveFrameFrom port =
     thn clear_cache
       (bnd (read1 port)
         (\<lambda>r. case r of
            None \<Rightarrow> ret ()
          | Some buff \<Rightarrow>
              bnd (scan_start port (\<lambda>b. b = SOH) buff)
                (\<lambda>r. bnd (case r of None \<Rightarrow> ret False | Some b \<Rightarrow> collect port b)
                   (\<lambda>valid. if valid then ret () else modify (\<lambda>(s, c). (s, resync c))))))"

definition collect_ack_body :: "'s channel \<Rightarrow> byte \<Rightarrow> ('s \<times> packet, byte + unit) prog" where
  "collect_ack_body port b =
     thn (append_cache b)
       (bnd (read1 port) (\<lambda>r. case r of None \<Rightarrow> ret (Inr ()) | Some b' \<Rightarrow> ret (Inl b')))"

definition ReceiveAckFrom :: "'s channel \<Rightarrow> ('s \<times> packet, unit) prog" where
  "ReceiveAckFrom port =
     thn clear_cache
       (bnd (read1 port)
         (\<lambda>r. case r of
            None \<Rightarrow> ret ()
          | Some buff \<Rightarrow>
              thn (outer (ch_SetTimeOut port 10000000))
                (bnd (scan_start port (\<lambda>b. b = ACK \<or> b = NAK) buff)
                  (\<lambda>r. case r of
                     None \<Rightarrow> ret ()
                   | Some b \<Rightarrow> loop (pleft port) (collect_ack_body port) b))))"

section \<open>Frames\<close>

lemma ucast_and_ff [simp]: "ucast (w AND 0xff :: u16) = (ucast w :: byte)"
proof (rule bit_word_eqI)
  fix n
  assume "n < LENGTH(8)"
  moreover have "bit (0xff :: u16) n \<longleftrightarrow> n < 8" if "n < 16" for n
    using that bit_mask_iff [where ?'a = u16, of 8 n] by (simp add: mask_eq_exp_minus_1)
  ultimately show "bit (ucast (w AND 0xff :: u16) :: byte) n = bit (ucast w :: byte) n"
    by (auto simp: bit_simps)
qed

lemma BuildPacket_eq:
  "BuildPacket c m =
     [SOH, m, STX] @ c @ [ETX] @ be16 (crc16 0xffff (c @ [ETX])) @ [EOT]"
  by (simp add: BuildPacket_def be16_def Let_def)

lemma length_BuildPacket [simp]: "length (BuildPacket c m) = length c + 7"
  by (simp add: BuildPacket_eq)

text \<open>A frame is accepted exactly when it has the shape head, content with \<open>ETX\<close>, checksum, \<open>EOT\<close>.\<close>

lemma isFrameCRCOK_shape:
  assumes "length hd3 = 3"
  shows "isFrameCRCOK (hd3 @ body @ [x] @ [h, l] @ [e]) \<longleftrightarrow>
     2 \<le> length body \<and> e = EOT \<and> x = ETX \<and> crc16 0xffff (body @ [x]) = de16 h l"
  using assms by (auto simp: isFrameCRCOK_def Let_def nth_append)

lemma isFrameCRCOK_decomp:
  "isFrameCRCOK f \<longleftrightarrow>
     (\<exists>h3 body h l. f = h3 @ body @ [ETX] @ [h, l] @ [EOT] \<and> length h3 = 3 \<and> 2 \<le> length body \<and>
        crc16 0xffff (body @ [ETX]) = de16 h l)" (is "?L \<longleftrightarrow> ?R")
proof
  assume ok: ?L
  then have len: "9 \<le> length f" by (simp add: isFrameCRCOK_def split: if_splits)
  define h3 where "h3 = take 3 f"
  define body where "body = take (length f - 7) (drop 3 f)"
  define r where "r = drop (length f - 7) (drop 3 f)"
  have f: "f = h3 @ body @ r" by (simp only: h3_def body_def r_def append_take_drop_id)
  have l3: "length h3 = 3" using len by (simp add: h3_def)
  have "length r = 4" using len by (simp add: r_def)
  then obtain x h l e where r: "r = [x] @ [h, l] @ [e]"
    by (auto simp: numeral_eq_Suc length_Suc_conv)
  from ok have "isFrameCRCOK (h3 @ body @ [x] @ [h, l] @ [e])" by (simp only: f [symmetric] r [symmetric])
  then have "2 \<le> length body \<and> e = EOT \<and> x = ETX \<and> crc16 0xffff (body @ [x]) = de16 h l"
    by (rule iffD1 [OF isFrameCRCOK_shape [OF l3]])
  with f r l3 show ?R 
    by - (rule exI [of _ h3], rule exI [of _ body], rule exI [of _ h], rule exI [of _ l], auto)
next
  assume ?R
  then show ?L using isFrameCRCOK_shape by auto
qed

lemma BuildPacket_accepted_iff: "isFrameCRCOK (BuildPacket c m) \<longleftrightarrow> 2 \<le> length c"
  using isFrameCRCOK_shape [of "[SOH, m, STX]" c ETX _ _ EOT]
  by (simp add: BuildPacket_eq be16_def)

lemma isFrameCRCOK_length: "isFrameCRCOK f \<Longrightarrow> 9 \<le> length f"
  by (simp add: isFrameCRCOK_def split: if_splits)

lemma isFrameCRCOK_last: "isFrameCRCOK f \<Longrightarrow> last f = EOT"
  by (auto simp: isFrameCRCOK_decomp)

lemma frame_burst:
  assumes "isFrameCRCOK f" "3 \<le> i" "i + 4 < length f"
  shows "isFrameCRCOK (f[i := a, Suc i := b]) \<longleftrightarrow> a = f ! i \<and> b = f ! Suc i"
proof -
  obtain h3 body h l where f: "f = h3 @ (body @ [ETX]) @ [h, l] @ [EOT]" and l3: "length h3 = 3"
    and lb: "2 \<le> length body" and crc: "crc16 0xffff (body @ [ETX]) = de16 h l"
    using assms(1) by (auto simp: isFrameCRCOK_decomp)
  define g j where "g = body @ [ETX]" and "j = i - 3"
  have ij: "i = 3 + j" "Suc j < length g" using assms(2,3) by (auto simp: f l3 j_def g_def)
  define g' where "g' = g[j := a, Suc j := b]"
  have lg': "length g' = Suc (length body)" by (simp add: g'_def g_def)
  then have g': "g' = butlast g' @ [last g']" by (metis append_butlast_last_id length_0_conv nat.simps(3))
  have "f[i := a, Suc i := b] = h3 @ g' @ [h, l] @ [EOT]"
    using ij by (simp add: f g'_def g_def l3 list_update_append)
  also have "\<dots> = h3 @ butlast g' @ [last g'] @ [h, l] @ [EOT]"
    by (subst g') simp
  finally have "isFrameCRCOK (f[i := a, Suc i := b]) \<longleftrightarrow> last g' = ETX \<and> crc16 0xffff g' = crc16 0xffff g"
    using isFrameCRCOK_shape [OF l3, of "butlast g'" "last g'" h l EOT] lb lg' g' crc
    by (simp add: g_def)
  also have "\<dots> \<longleftrightarrow> last g' = ETX \<and> a = g ! j \<and> b = g ! Suc j"
    unfolding g'_def using crc16_update_two [OF ij(2)] by simp
  also have "\<dots> \<longleftrightarrow> a = g ! j \<and> b = g ! Suc j"
    using ij(2) by (auto simp: g'_def g_def)
  also have "\<dots> \<longleftrightarrow> a = f ! i \<and> b = f ! Suc i"
    using ij l3 by (simp add: f g_def nth_append)
  finally show ?thesis .
qed

text \<open>
  C16: corruption of two adjacent bytes anywhere between the frame head and the checksum field is always
  noticed: the altered frame is accepted only if nothing was altered.
\<close>

theorem frame_burst_detected:
  assumes "isFrameCRCOK f" "3 \<le> i" "i + 4 < length f"
  shows "isFrameCRCOK (f[i := a, Suc i := b]) \<longleftrightarrow> a = f ! i \<and> b = f ! Suc i"
  using assms by (rule frame_burst)

theorem frame_burst_detected_witness:
  "isFrameCRCOK (BuildPacket [0x72, 0x61] 1) \<and>
   \<not> isFrameCRCOK ((BuildPacket [0x72, 0x61] 1)[3 := 0x77, Suc 3 := 0x61])"
proof -
  have "isFrameCRCOK (BuildPacket [0x72, 0x61] 1)"
    using BuildPacket_accepted_iff by simp
  moreover have "\<not> isFrameCRCOK ((BuildPacket [0x72, 0x61] 1)[3 := 0x77, Suc 3 := 0x61])"
    using frame_burst_detected [OF calculation, of 3 "0x77" "0x61"] by (simp add: BuildPacket_eq)
  ultimately show ?thesis ..
qed

section \<open>Resynchronisation\<close>

lemma isFrameCRCOK_Nil [simp]: "\<not> isFrameCRCOK []"
  by (simp add: isFrameCRCOK_def)

lemma find_sub_single: "find_sub [x] ys = (if x \<in> set ys then Some (length (takeWhile (\<lambda>y. y \<noteq> x) ys)) else None)"
  by (induction ys) auto

lemma drop_length_takeWhile: "drop (length (takeWhile P ys)) ys = dropWhile P ys"
  by (induction ys) auto

lemma slip_eq: "slipToNextStartToken xs = dropWhile (\<lambda>b. b \<noteq> SOH) (tl xs)"
proof (cases "SOH \<in> set (tl xs)")
  case True
  then show ?thesis
    by (cases xs) (simp_all add: slipToNextStartToken_def find_sub_single drop_length_takeWhile)
next
  case False
  then have "dropWhile (\<lambda>b. b \<noteq> SOH) (tl xs) = []" by (auto)
  with False show ?thesis
    by (cases xs) (simp_all add: slipToNextStartToken_def find_sub_single del: dropWhile_eq_Nil_conv)
qed

lemma resync_sound: "resync c = [] \<or> isFrameCRCOK (resync c)"
proof (induction c rule: resync.induct)
  case (1 c)
  then show ?case by (subst (1 2) resync.simps) (auto simp: Let_def)
qed

text \<open>
  Specification of the resynchronisation: scan the start offsets from left to right.
\<close>

definition first_frame :: "packet \<Rightarrow> nat list \<Rightarrow> packet" where
  "first_frame c is =
     (case find (\<lambda>i. c ! i = SOH \<and> isFrameCRCOK (drop i c)) is of Some i \<Rightarrow> drop i c | None \<Rightarrow> [])"

lemma first_frame_Nil [simp]: "first_frame c [] = []"
  by (simp add: first_frame_def)

lemma first_frame_Cons:
  "first_frame c (i # is) =
     (if c ! i = SOH \<and> isFrameCRCOK (drop i c) then drop i c else first_frame c is)"
  by (simp add: first_frame_def)

lemma first_frame_shift:
  "first_frame (x # c) (map Suc is) = first_frame c is"
  by (induction "is") (simp_all add: first_frame_Cons)

lemma resync_dropWhile:
  "first_frame c [0..<length c] =
     (let d = dropWhile (\<lambda>b. b \<noteq> SOH) c in if isFrameCRCOK d then d else first_frame d [1..<length d])"
proof (induction c)
  case Nil
  then show ?case by simp
next
  case (Cons x c)
  have upt: "[0..<length (x # c)] = 0 # map Suc [0..<length c]"
    by (simp add: upt_conv_Cons map_Suc_upt del: upt_Suc)
  have upt1: "[1..<length (x # c)] = map Suc [0..<length c]"
    by (simp add: map_Suc_upt del: upt_Suc)
  have all: "first_frame (x # c) [0..<length (x # c)] =
      (if x = SOH \<and> isFrameCRCOK (x # c) then x # c else first_frame c [0..<length c])"
    by (simp only: upt first_frame_Cons first_frame_shift nth_Cons_0 drop_0)
  have rest: "first_frame (x # c) [1..<length (x # c)] = first_frame c [0..<length c]"
    by (simp only: upt1 first_frame_shift)
  show ?case
  proof (cases "x = SOH")
    case True
    with rest show ?thesis unfolding all by (simp only: Let_def dropWhile.simps simp_thms if_True if_False)
  next
    case False
    then show ?thesis unfolding all by (simp only: Cons Let_def dropWhile.simps simp_thms if_True if_False)
  qed
qed

text \<open>
  C17: after the input has ended without a valid frame, the receiver keeps the longest proper suffix of
  what it collected that starts with \<open>SOH\<close> and passes the frame check, and nothing if there is none.
\<close>

theorem resync_spec: "resync c = first_frame c [1..<length c]"
proof (induction c rule: resync.induct)
  case (1 c)
  show ?case
  proof (cases c)
    case Nil
    then show ?thesis by (simp add: resync.simps)
  next
    case (Cons x xs)
    define d where "d = dropWhile (\<lambda>b. b \<noteq> SOH) xs"
    have slip: "slipToNextStartToken c = d" by (simp add: slip_eq Cons d_def)
    have "first_frame c [1..<length c] = first_frame xs [0..<length xs]"
      using first_frame_shift [of x xs "[0..<length xs]"] by (simp add: Cons map_Suc_upt)
    also have "\<dots> = (if isFrameCRCOK d then d else first_frame d [1..<length d])"
      using resync_dropWhile [of xs] by (simp add: d_def Let_def)
    finally have *: "first_frame c [1..<length c] = (if isFrameCRCOK d then d else first_frame d [1..<length d])" .
    have ne: "c \<noteq> []" by (simp add: Cons)
    have unfold: "resync c = (if isFrameCRCOK d then d else resync d)"
      by (subst resync.simps) (simp only: ne slip Let_def simp_thms if_False)
    have "resync d = first_frame d [1..<length d]" if "\<not> isFrameCRCOK d"
      using that ne slip 1 by simp
    then show ?thesis unfolding * unfold by simp
  qed
qed

section \<open>Reception\<close>

lemma hoare_True [simp]: "hoare P m (\<lambda>_ _. True) (\<lambda>_ _. True)"
  by (simp add: hoare_def split: prod.splits outcome.splits)

lemma outer_eq: "outer m (s, c) = (r, (s', c')) \<longleftrightarrow> m s = (r, s') \<and> c' = c"
  by (auto simp: outer_def split: prod.splits)

lemma read1_eq_Some:
  "read1 port (s, c) = (Val (Some b), (s', c')) \<longleftrightarrow>
     (\<exists>bs. ch_Read port 1 s = (Val (b # bs), s') \<and> c' = c)"
  by (auto simp: read1_def bnd_def outer_def ret_def split: prod.splits outcome.splits list.splits)

lemma read1_eq_None:
  "read1 port (s, c) = (Val None, (s', c')) \<longleftrightarrow> ch_Read port 1 s = (Val [], s') \<and> c' = c"
  by (auto simp: read1_def bnd_def outer_def ret_def split: prod.splits outcome.splits list.splits)

lemma read1_cache: "read1 port p = (r, p') \<Longrightarrow> snd p' = snd p"
  by (auto simp: read1_def bnd_def outer_def ret_def split: prod.splits outcome.splits list.splits if_splits)

lemma collect_sound:
  "hoare (\<lambda>_. True) (collect port b) (\<lambda>v p. v \<longrightarrow> isFrameCRCOK (snd p)) (\<lambda>_ _. True)"
  unfolding collect_def
proof (rule hoare_loop)
  fix x
  show "hoare (\<lambda>_. True) (collect_body port x)
     (\<lambda>r. case r of Inl x' \<Rightarrow> \<lambda>_. True | Inr v \<Rightarrow> (\<lambda>p. v \<longrightarrow> isFrameCRCOK (snd p))) (\<lambda>_ _. True)"
    unfolding collect_body_def thn_def
  proof (rule hoare_bnd [where R = "\<lambda>_ _. True"], simp,
      rule hoare_bnd [where R = "\<lambda>v p. v \<longrightarrow> isFrameCRCOK (snd p)"])
    show "hoare (\<lambda>_. True) (if x = EOT then check_frame else ret False)
        (\<lambda>v p. v \<longrightarrow> isFrameCRCOK (snd p)) (\<lambda>_ _. True)"
      by (auto simp: hoare_def check_frame_def isValidFrame_def ret_def)
    fix v
    show "hoare (\<lambda>p. v \<longrightarrow> isFrameCRCOK (snd p))
        (if v then ret (Inr True)
         else bnd (read1 port) (\<lambda>r. case r of None \<Rightarrow> ret (Inr False) | Some b' \<Rightarrow> ret (Inl b')))
        (\<lambda>r. case r of Inl x' \<Rightarrow> \<lambda>_. True | Inr v \<Rightarrow> (\<lambda>p. v \<longrightarrow> isFrameCRCOK (snd p))) (\<lambda>_ _. True)"
      by (cases v) (auto intro!: hoare_ret hoare_bnd [where R = "\<lambda>_ _. True"] split: option.split)
  qed
qed

lemma ReceiveFrameFrom_hoare:
  "hoare (\<lambda>_. True) (ReceiveFrameFrom port) (\<lambda>_ p. snd p = [] \<or> isFrameCRCOK (snd p)) (\<lambda>_ _. True)"
  (is "hoare _ _ ?Q _")
  unfolding ReceiveFrameFrom_def thn_def
proof (rule hoare_bnd [where R = "\<lambda>_ p. snd p = []"])
  show "hoare (\<lambda>_. True) clear_cache (\<lambda>_ p. snd p = []) (\<lambda>_ _. True)"
    by (auto simp: hoare_def clear_cache_def modify_def)
  have resync: "hoare (\<lambda>p. v \<longrightarrow> isFrameCRCOK (snd p))
      (if v then ret () else modify (\<lambda>(s, c). (s, resync c))) ?Q (\<lambda>_ _. True)" for v
    using resync_sound by (auto simp: hoare_def ret_def modify_def)
  have rest: "hoare (\<lambda>_. True) (bnd (scan_start port (\<lambda>b. b = SOH) buff)
      (\<lambda>r. bnd (case r of None \<Rightarrow> ret False | Some b \<Rightarrow> collect port b)
         (\<lambda>valid. if valid then ret () else modify (\<lambda>(s, c). (s, resync c))))) ?Q (\<lambda>_ _. True)" for buff
  proof (rule hoare_bnd [where R = "\<lambda>_ _. True"], simp, rule hoare_bnd [OF _ resync])
    fix r
    show "hoare (\<lambda>_. True) (case r of None \<Rightarrow> ret False | Some b \<Rightarrow> collect port b)
        (\<lambda>v p. v \<longrightarrow> isFrameCRCOK (snd p)) (\<lambda>_ _. True)"
      using collect_sound by (auto intro: hoare_ret split: option.split)
  qed
  fix u
  show "hoare (\<lambda>p. snd p = []) (bnd (read1 port) (\<lambda>r. case r of None \<Rightarrow> ret () | Some buff \<Rightarrow>
      bnd (scan_start port (\<lambda>b. b = SOH) buff)
        (\<lambda>r. bnd (case r of None \<Rightarrow> ret False | Some b \<Rightarrow> collect port b)
           (\<lambda>valid. if valid then ret () else modify (\<lambda>(s, c). (s, resync c)))))) ?Q (\<lambda>_ _. True)"
  proof (rule hoare_bnd [where R = "\<lambda>_ p. snd p = []"])
    show "hoare (\<lambda>p. snd p = []) (read1 port) (\<lambda>_ p. snd p = []) (\<lambda>_ _. True)"
      by (rule hoareI) (auto simp: read1_cache)
    fix r
    show "hoare (\<lambda>p. snd p = []) (case r of None \<Rightarrow> ret () | Some buff \<Rightarrow>
      bnd (scan_start port (\<lambda>b. b = SOH) buff)
        (\<lambda>r. bnd (case r of None \<Rightarrow> ret False | Some b \<Rightarrow> collect port b)
           (\<lambda>valid. if valid then ret () else modify (\<lambda>(s, c). (s, resync c))))) ?Q (\<lambda>_ _. True)"
      by (cases r) (auto intro: hoare_ret hoare_weaken [OF rest])
  qed
qed

text \<open>
  C8: whatever the channel delivers, when \<open>ReceiveFrameFrom\<close> returns, the packet is empty or a frame
  that passes the check.
\<close>

theorem ReceiveFrameFrom_sound:
  "ReceiveFrameFrom port (s, c) = (Val (), (s', c')) \<Longrightarrow> c' = [] \<or> isFrameCRCOK c'"
  using hoare_ValD [OF ReceiveFrameFrom_hoare] by fastforce

text \<open>A port on which nothing arrives, for the witnesses.\<close>

definition silent_port :: "unit channel" where
  "silent_port =
     \<lparr>ch_Open = ret 0, ch_Read = \<lambda>n. ret [], ch_Write = \<lambda>bs. ret 0, ch_Lock = ret (), ch_Unlock = ret (),
      ch_SetTimeOut = \<lambda>t. ret (), ch_IsOpen = \<lambda>s. True, ch_left = \<lambda>s. 0\<rparr>"

theorem ReceiveFrameFrom_sound_witness:
  "ReceiveFrameFrom silent_port ((), [1]) = (Val (), ((), [])) \<and> ([] = ([] :: packet) \<or> isFrameCRCOK [])"
proof -
  have "ReceiveFrameFrom silent_port ((), [1]) = (Val (), ((), []))"
    by (simp add: ReceiveFrameFrom_def silent_port_def clear_cache_def thn_def bnd_def modify_def read1_def outer_def ret_def)
  with ReceiveFrameFrom_sound [OF this] show ?thesis by blast
qed

text \<open>
  \<open>feeds port s bs s'\<close>: from state \<open>s\<close>, single-byte reads deliver the bytes \<open>bs\<close> and lead to \<open>s'\<close>.
\<close>

primrec feeds :: "'s channel \<Rightarrow> 's \<Rightarrow> byte list \<Rightarrow> 's \<Rightarrow> bool" where
  "feeds port s [] s' = (s' = s)"
| "feeds port s (b # bs) s' = (\<exists>t. ch_Read port 1 s = (Val [b], t) \<and> feeds port t bs s')"

lemma feeds_append:
  "feeds port s (xs @ ys) s' \<longleftrightarrow> (\<exists>t. feeds port s xs t \<and> feeds port t ys s')"
  by (induction xs arbitrary: s) auto

context channel
begin

lemma read1_left: "read1 ch p = (Val (Some b), p') \<Longrightarrow> pleft ch p' < pleft ch p"
  by (cases p; cases p') (auto simp: read1_eq_Some pleft_def dest: read_left)

lemma read1_Some: "ch_Read ch 1 s = (Val [b], t) \<Longrightarrow> read1 ch (s, c) = (Val (Some b), (t, c))"
  by (simp add: read1_eq_Some)

lemma consumes_scan_start: "consumes (pleft ch) (scan_start_body ch start)"
  by (auto simp: consumes_def scan_start_body_def ret_def bnd_eq_Val dest: read1_left split: if_splits option.splits)

lemma consumes_collect: "consumes (pleft ch) (collect_body ch)"
  unfolding consumes_def
proof (intro allI impI)
  fix b p b' p'
  assume eq: "collect_body ch b p = (Val (Inl b'), p')"
  obtain s c where p: "p = (s, c)" by (cases p)
  from eq obtain v q where q: "(if b = EOT then check_frame else ret False) (s, c @ [b]) = (Val v, q)"
    and r: "read1 ch q = (Val (Some b'), p')"
    by (auto simp: collect_body_def p thn_def append_cache_def prog_simps bnd_eq_Val ret_def split: if_splits option.splits)
  from q have "fst q = s" by (auto simp: check_frame_def ret_def split: if_splits)
  with read1_left [OF r] show "pleft ch p' < pleft ch p" by (simp add: pleft_def p)
qed

lemma consumes_collect_ack: "consumes (pleft ch) (collect_ack_body ch)"
  unfolding consumes_def
proof (intro allI impI)
  fix b p b' p'
  assume eq: "collect_ack_body ch b p = (Val (Inl b'), p')"
  obtain s c where p: "p = (s, c)" by (cases p)
  from eq have "read1 ch (s, c @ [b]) = (Val (Some b'), p')"
    by (auto simp: collect_ack_body_def p thn_def append_cache_def prog_simps bnd_eq_Val ret_def split: option.splits)
  from read1_left [OF this] show "pleft ch p' < pleft ch p" by (simp add: pleft_def p)
qed

text \<open>The scan skips bytes that are not the start byte.\<close>

lemma scan_start_feeds:
  "feeds ch s bs s' \<Longrightarrow> \<not> start b \<Longrightarrow> (\<forall>x \<in> set (butlast bs). \<not> start x) \<Longrightarrow> bs \<noteq> [] \<Longrightarrow> start (last bs) \<Longrightarrow>
   scan_start ch start b (s, c) = (Val (Some (last bs)), (s', c))"
proof (induction bs arbitrary: b s)
  case Nil
  then show ?case by simp
next
  case (Cons x bs)
  from Cons.prems(1) obtain t where t: "ch_Read ch 1 s = (Val [x], t)" "feeds ch t bs s'" by auto
  note r1 = bnd_Val [of "read1 ch" "(s, c)", OF read1_Some [OF t(1), of c]]
  have unfold: "scan_start ch start b (s, c) = scan_start ch start x (t, c)"
    unfolding scan_start_def
    by (subst loop_unfold [OF consumes_scan_start])
      (simp add: scan_start_body_def Cons.prems(2) prog_simps r1)
  show ?case
  proof (cases "bs = []")
    case True
    with Cons.prems t have "start x" "s' = t" by auto
    then have "scan_start ch start x (t, c) = (Val (Some x), (t, c))"
      unfolding scan_start_def
      by (subst loop_unfold [OF consumes_scan_start]) (simp add: scan_start_body_def prog_simps ret_def)
    with True unfold \<open>s' = t\<close> show ?thesis by simp
  next
    case False
    with Cons.prems Cons.IH [OF t(2), of x] unfold show ?thesis by simp
  qed
qed

lemma scan_start_hit: "start b \<Longrightarrow> scan_start ch start b p = (Val (Some b), p)"
  unfolding scan_start_def
  by (subst loop_unfold [OF consumes_scan_start]) (simp add: scan_start_body_def prog_simps ret_def)

text \<open>Collecting the rest of a frame none of whose proper prefixes is accepted.\<close>

lemma collect_feeds:
  "feeds ch s bs s' \<Longrightarrow> f = c @ b # bs \<Longrightarrow> isFrameCRCOK f \<Longrightarrow>
   (\<forall>n < length f. \<not> isFrameCRCOK (take n f)) \<Longrightarrow> length f \<le> 4056 \<Longrightarrow>
   collect ch b (s, c) = (Val True, (s', f))"
proof (induction bs arbitrary: b c s)
  case Nil
  then have "b = EOT" using isFrameCRCOK_last [of f] by simp
  with Nil show ?case
    unfolding collect_def
    by (subst loop_unfold [OF consumes_collect])
      (simp add: collect_body_def append_cache_def prog_simps check_frame_def isValidFrame_def bnd_def ret_def)
next
  case (Cons x bs)
  from Cons.prems(1) obtain t where t: "ch_Read ch 1 s = (Val [x], t)" "feeds ch t bs s'" by auto
  have pre: "\<not> isFrameCRCOK (c @ [b])"
    using Cons.prems(2,4) by (auto dest: spec [of _ "Suc (length c)"])
  have len: "\<not> length (c @ [b]) > 4056" using Cons.prems(2,5) by simp
  have chk: "(if b = EOT then check_frame else ret False) (s, c @ [b]) = (Val False, (s, c @ [b]))"
    using pre len by (auto simp: check_frame_def isValidFrame_def ret_def)
  note chk' = bnd_Val [of "if b = EOT then check_frame else ret False" "(s, c @ [b])", OF chk]
    and r1 = bnd_Val [of "read1 ch" "(s, c @ [b])", OF read1_Some [OF t(1), of "c @ [b]"]]
  have "collect_body ch b (s, c) = (Val (Inl x), (t, c @ [b]))"
    unfolding collect_body_def append_cache_def thn_simps(3) prod.case chk' by (simp add: r1 ret_def)
  then have "collect ch b (s, c) = collect ch x (t, c @ [b])"
    unfolding collect_def by (subst loop_unfold [OF consumes_collect]) (simp add: bnd_def)
  also have "\<dots> = (Val True, (s', f))"
    by (rule Cons.IH [OF t(2)]) (use Cons.prems in auto)
  finally show ?case .
qed

lemma ReceiveFrameFrom_feeds:
  assumes fd: "feeds ch s (junk @ f) s'" and junk: "SOH \<notin> set junk" and f: "isFrameCRCOK f" "f = SOH # f'"
    and pre: "\<forall>n < length f. \<not> isFrameCRCOK (take n f)" and len: "length f \<le> 4056"
  shows "ReceiveFrameFrom ch (s, c) = (Val (), (s', f))"
proof -
  obtain t u where t: "feeds ch s (junk @ [SOH]) t" "feeds ch t f' s'"
    using fd by (auto simp: f(2) feeds_append)
  have coll: "collect ch SOH (t, []) = (Val True, (s', f))"
    by (rule collect_feeds [OF t(2)]) (use f pre len in auto)
  obtain b0 bs s1 where b0: "junk @ [SOH] = b0 # bs" "ch_Read ch 1 s = (Val [b0], s1)" "feeds ch s1 bs t"
    using t(1) by (cases "junk @ [SOH]") auto
  have scan: "scan_start ch (\<lambda>b. b = SOH) b0 (s1, []) = (Val (Some SOH), (t, []))"
  proof (cases "junk = []")
    case True
    with b0 show ?thesis by (auto simp: scan_start_hit)
  next
    case False
    then obtain j where j: "junk = b0 # j" "bs = j @ [SOH]" using b0(1) by (cases junk) auto
    then show ?thesis using scan_start_feeds [OF b0(3), of "\<lambda>b. b = SOH" b0 "[]"] junk by auto
  qed
  note steps = bnd_Val [of "read1 ch" "(s, [])", OF read1_Some [OF b0(2), of "[]"]]
    bnd_Val [of "scan_start ch (\<lambda>b. b = SOH) b0" "(s1, [])", OF scan]
    bnd_Val [of "collect ch SOH" "(t, [])", OF coll]
  show ?thesis
    by (simp add: ReceiveFrameFrom_def clear_cache_def prog_simps steps) (simp add: ret_def)
qed

end

section \<open>Acknowledgements\<close>

lemma IsValidAck_simps [simp]:
  "\<not> IsValidAck []"
  "IsValidAck (b # c) \<longleftrightarrow> b = ACK \<or> b = NAK"
  by (auto simp: IsValidAck_def)

lemma IsValidAck_append: "IsValidAck c \<Longrightarrow> IsValidAck (c @ d)"
  by (cases c) auto

lemma read1_hoare: "hoare (\<lambda>p. P (snd p)) (read1 port) (\<lambda>_ p. P (snd p)) (\<lambda>_ p. P (snd p))"
  by (rule hoareI) (auto simp: read1_cache)

lemma scan_start_hoare:
  "hoare (\<lambda>p. snd p = []) (scan_start port start b)
     (\<lambda>r p. snd p = [] \<and> (\<forall>x. r = Some x \<longrightarrow> start x)) (\<lambda>_ p. snd p = [])"
  unfolding scan_start_def
proof (rule hoare_loop)
  fix x
  show "hoare (\<lambda>p. snd p = []) (scan_start_body port start x)
     (\<lambda>r. case r of Inl x' \<Rightarrow> \<lambda>p. snd p = []
        | Inr v \<Rightarrow> (\<lambda>p. snd p = [] \<and> (\<forall>x. v = Some x \<longrightarrow> start x))) (\<lambda>_ p. snd p = [])"
    by (auto simp: scan_start_body_def intro!: hoare_ret hoare_bnd [OF read1_hoare] split: option.split)
qed

lemma collect_ack_hoare:
  "hoare (\<lambda>p. snd p = [] \<and> (b = ACK \<or> b = NAK) \<or> IsValidAck (snd p)) (loop (pleft port) (collect_ack_body port) b)
     (\<lambda>_ p. IsValidAck (snd p)) (\<lambda>_ p. IsValidAck (snd p))"
proof (rule hoare_loop)
  fix x
  have app: "hoare (\<lambda>p. snd p = [] \<and> (x = ACK \<or> x = NAK) \<or> IsValidAck (snd p)) (append_cache x)
      (\<lambda>_ p. IsValidAck (snd p)) (\<lambda>_ p. IsValidAck (snd p))"
    by (auto simp: hoare_def append_cache_def modify_def IsValidAck_append)
  show "hoare (\<lambda>p. snd p = [] \<and> (x = ACK \<or> x = NAK) \<or> IsValidAck (snd p)) (collect_ack_body port x)
     (\<lambda>r. case r of Inl x' \<Rightarrow> \<lambda>p. snd p = [] \<and> (x' = ACK \<or> x' = NAK) \<or> IsValidAck (snd p)
        | Inr v \<Rightarrow> (\<lambda>p. IsValidAck (snd p))) (\<lambda>_ p. IsValidAck (snd p))"
    unfolding collect_ack_body_def thn_def
    by (rule hoare_bnd [OF app], rule hoare_bnd [OF read1_hoare]) (auto intro: hoare_ret split: option.split)
qed

lemma ReceiveAckFrom_hoare:
  "hoare (\<lambda>_. True) (ReceiveAckFrom port) (\<lambda>_ p. snd p = [] \<or> IsValidAck (snd p))
     (\<lambda>_ p. snd p = [] \<or> IsValidAck (snd p))" (is "hoare _ _ ?Q ?E")
  unfolding ReceiveAckFrom_def thn_def
proof (rule hoare_bnd [where R = "\<lambda>_ p. snd p = []"])
  show "hoare (\<lambda>_. True) clear_cache (\<lambda>_ p. snd p = []) ?E"
    by (auto simp: hoare_def clear_cache_def modify_def)
  have tmo: "hoare (\<lambda>p. snd p = []) (outer (ch_SetTimeOut port 10000000)) (\<lambda>_ p. snd p = []) ?E"
    by (rule hoareI) (auto simp: outer_def split: prod.splits)
  have scan: "hoare (\<lambda>p. snd p = []) (scan_start port (\<lambda>b. b = ACK \<or> b = NAK) b)
     (\<lambda>r p. snd p = [] \<and> (\<forall>x. r = Some x \<longrightarrow> x = ACK \<or> x = NAK)) ?E" for b
    by (rule hoare_weaken [OF scan_start_hoare]) auto
  have rd: "hoare (\<lambda>p. snd p = []) (read1 port) (\<lambda>_ p. snd p = []) ?E"
    by (rule hoareI) (auto simp: read1_cache)
  fix u
  show "hoare (\<lambda>p. snd p = []) (bnd (read1 port) (\<lambda>r. case r of None \<Rightarrow> ret () | Some buff \<Rightarrow>
      bnd (outer (ch_SetTimeOut port 10000000)) (\<lambda>_. bnd (scan_start port (\<lambda>b. b = ACK \<or> b = NAK) buff)
        (\<lambda>r. case r of None \<Rightarrow> ret () | Some b \<Rightarrow> loop (pleft port) (collect_ack_body port) b)))) ?Q ?E"
    by (rule hoare_bnd [OF rd])
      (auto intro!: hoare_ret hoare_bnd [OF tmo] hoare_bnd [OF scan] intro: hoare_weaken [OF collect_ack_hoare]
        split: option.split)
qed

text \<open>
  C18: whatever the channel delivers, and also when it throws, an acknowledgement read by
  \<open>ReceiveAckFrom\<close> is empty or starts with \<open>ACK\<close> or \<open>NAK\<close>.
\<close>

theorem ReceiveAckFrom_sound:
  assumes "ReceiveAckFrom port (s, c) = (r, (s', c'))" and "r = Val () \<or> r = Throw e"
  shows "c' = [] \<or> IsValidAck c'"
  using assms hoare_ValD [OF ReceiveAckFrom_hoare, of port "(s, c)" "()" "(s', c')"]
    hoare_ThrowD [OF ReceiveAckFrom_hoare, of port "(s, c)" e "(s', c')"]
  by auto

theorem ReceiveAckFrom_sound_witness:
  "ReceiveAckFrom silent_port ((), [1]) = (Val (), ((), [])) \<and> ([] = ([] :: packet) \<or> IsValidAck [])"
proof -
  have "ReceiveAckFrom silent_port ((), [1]) = (Val (), ((), []))"
    by (simp add: ReceiveAckFrom_def silent_port_def clear_cache_def thn_def bnd_def modify_def read1_def outer_def ret_def)
  with ReceiveAckFrom_sound [OF this] show ?thesis by blast
qed

text \<open>
  The acknowledgements the agent itself builds: the number round-trips, except for number zero, which
  \<open>Ack\<close> leaves out of the frame.
\<close>

lemma cmdWord_length: "c \<noteq> CMD_END \<Longrightarrow> length (cmdWord c) = 2"
  by (cases c) (simp_all add: cmdWord_def)

lemma cmdWord_two: "c \<noteq> CMD_END \<Longrightarrow> \<exists>a b. cmdWord c = [a, b]"
  using cmdWord_length [of c] by (auto simp: numeral_2_eq_2 length_Suc_conv)

text \<open>
  C19: reading back an acknowledgement built by \<open>Ack\<close> gives its kind and its number; the number test of
  the sender succeeds exactly for that number when it is not zero, and reads past the end of the
  four-byte frame (undefined behaviour) when it is zero.
\<close>

theorem Packet_Ack_roundtrip:
  assumes "Packet_Ack bAck m c n = Some p"
  shows "IsValidAck p \<and> IsAck p = bAck \<and> GetAckNo p = Some n \<and>
     (bAck \<longrightarrow> IsAckNo p k = (if n = 0 then None else Some (n = k)))"
proof -
  from assms have "c \<noteq> CMD_END" by (auto simp: Packet_Ack_def)
  then obtain a b where ab: "cmdWord c = [a, b]" using cmdWord_two by blast
  with assms have p: "p = (if bAck then ACK else NAK) # m # a # b #
      (if n \<noteq> 0 then [ucast (drop_bit 8 n), ucast n] else [])"
    by (auto simp: Packet_Ack_def split: if_splits)
  show ?thesis
    by (auto simp: p GetAckNo_def IsAckNo_def IsAck_def peek16_def symbol_defs)
qed

theorem Packet_Ack_roundtrip_witness:
  "Packet_Ack True 1 DataRequest 258 = Some [6, 1, 0x72, 0x61, 1, 2] \<and>
   GetAckNo [6, 1, 0x72, 0x61, 1, 2] = Some 258 \<and> IsAckNo [6, 1, 0x72, 0x61, 1, 2] 258 = Some True"
proof -
  have "Packet_Ack True 1 DataRequest 258 = Some [6, 1, 0x72, 0x61, 1, 2]"
    by (simp add: Packet_Ack_def cmdWord_def symbol_defs)
  with Packet_Ack_roundtrip [OF this, of 258] show ?thesis by simp
qed

section \<open>Commands\<close>

text \<open>The two characters of a command word identify the command.\<close>

lemma cmds_complete: "set cmds = - {CMD_END}"
proof -
  have "c \<in> set cmds \<longleftrightarrow> c \<noteq> CMD_END" for c by (cases c) (simp_all add: cmds_def)
  then show ?thesis by auto
qed

lemma cmdText_inject: "cmdText c = cmdText d \<longleftrightarrow> c = d"
  by (cases c; cases d) simp_all

lemma inj_of_char_byte: "inj (of_char :: char \<Rightarrow> byte)"
proof (rule injI)
  fix x y :: char
  assume "(of_char x :: byte) = of_char y"
  then have "(of_nat (of_char x) :: byte) = of_nat (of_char y)" by (simp only: of_nat_of_char)
  then have "(of_char x :: nat) = of_char y" by (simp add: word_of_nat_eq_iff take_bit_eq_mod)
  then show "x = y" by simp
qed

lemma cmdWord_inject: "cmdWord c = cmdWord d \<longleftrightarrow> c = d"
proof
  assume "cmdWord c = cmdWord d"
  then have "cmdText c = cmdText d"
    using inj_mapI [OF inj_of_char_byte] by (simp add: cmdWord_def bytes_of_def inj_eq)
  then show "c = d" by (simp add: cmdText_inject)
qed simp

lemma cmd_search_hit:
  assumes "peek p 3 = Some a" "peek p 4 = Some b"
  shows "cmd_search p cs = Some (case find (\<lambda>c. a = cmdWord c ! 0 \<and> b = cmdWord c ! 1) cs of Some c \<Rightarrow> c | None \<Rightarrow> CMD_END)"
  using assms by (induction cs) (auto split: option.splits)

text \<open>Which command a packet that reaches offset 4 stands for.\<close>

lemma find_cmdWord:
  assumes "CMD_END \<notin> set cs" "d \<noteq> CMD_END" "cmdWord d = [a, b]"
  shows "find (\<lambda>c. a = cmdWord c ! 0 \<and> b = cmdWord c ! 1) cs = (if d \<in> set cs then Some d else None)"
  using assms(1)
proof (induction cs)
  case Nil
  then show ?case by simp
next
  case (Cons c cs)
  then have "c \<noteq> CMD_END" by auto
  then obtain a' b' where "cmdWord c = [a', b']" using cmdWord_two by blast
  then have "a = cmdWord c ! 0 \<and> b = cmdWord c ! 1 \<longleftrightarrow> cmdWord c = cmdWord d" using assms(3) by auto
  with Cons show ?case by (auto simp: cmdWord_inject)
qed

lemma cmd_search_found:
  assumes "c \<noteq> CMD_END" "4 < length p" "take 2 (drop 3 p) = cmdWord c"
  shows "cmd_search p cmds = Some c"
proof -
  obtain a b where ab: "cmdWord c = [a, b]" using assms(1) cmdWord_two by blast
  have "take 2 (drop 3 p) = [p ! 3, p ! 4]"
    using assms(2) by (simp add: list_eq_iff_nth_eq less_Suc_eq numeral_2_eq_2)
  with assms(3) ab have "peek p 3 = Some a" "peek p 4 = Some b"
    using assms(2) by (auto simp: peek_def)
  then show ?thesis
    using assms(1,2) find_cmdWord [of cmds c a b] cmds_complete ab
    by (simp add: cmd_search_hit)
qed

text \<open>
  C20: a packet that carries a command word of the table at offsets 3 and 4 is recognised as that command.
  In particular a command the agent builds is recognised by the receiver.
\<close>

theorem FrameCommandType_correct:
  assumes "c \<noteq> CMD_END" "4 < length p" "take 2 (drop 3 p) = cmdWord c"
  shows "FrameCommandType p = Some c"
  using cmd_search_found [OF assms] assms(2) by (simp add: FrameCommandType_def)

theorem FrameCommandType_correct_witness:
  "FrameCommandType (BuildPacket (cmdWord GetTime) 1) = Some GetTime"
proof (rule FrameCommandType_correct)
  show "GetTime \<noteq> CMD_END" by simp
  show "4 < length (BuildPacket (cmdWord GetTime) 1)" by (simp add: cmdWord_def)
  show "take 2 (drop 3 (BuildPacket (cmdWord GetTime) 1)) = cmdWord GetTime"
    by (simp add: BuildPacket_eq cmdWord_def)
qed

section \<open>Diagnostics\<close>

lemma Dump_loop_length:
  "length buf \<le> 1000 \<Longrightarrow> length (Dump_loop buf bs) \<le> 1003"
  by (induction buf bs rule: Dump_loop.induct) (auto simp: Let_def)

text \<open>
  The text \<open>Dump\<close> composes, together with its terminating NUL, fits its 1024-byte stack buffer for
  every packet.
\<close>

theorem Dump_fits: "length (Dump strCache) + 1 \<le> 1024"
  using Dump_loop_length [of "[]" strCache] by (simp add: Dump_def)

section \<open>Time answers\<close>

lemma cmdWord_simps:
  "cmdWord DataRequest = [0x72, 0x61]"
  "cmdWord MPHealthCheck = [0x77, 0x61]"
  "cmdWord GetCondition = [0x63, 0x61]"
  "cmdWord GetTime = [0x63, 0x6b]"
  by (simp_all add: cmdWord_def)



section \<open>What receiving does to the channel\<close>

text \<open>Receiving follows every preorder that the reads and the setting of the timeout follow.\<close>

lemma moves_fst_cache:
  "preorder_rel R \<Longrightarrow> (\<And>s c. fst (f (s, c)) = s) \<Longrightarrow> moves (\<lambda>s s'. R (fst s) (fst s')) (modify f)"
  by (rule moves_modify) (auto simp: preorder_rel_def reflp_def split: prod.splits)

lemma moves_fst_read1:
  "preorder_rel R \<Longrightarrow> moves R (ch_Read port 1) \<Longrightarrow> moves (\<lambda>s s'. R (fst s) (fst s')) (read1 port)"
  unfolding read1_def
  by (intro moves_bnd moves_case_list moves_ret moves_fst_outer preorder_fst)

lemma moves_fst_check:
  "preorder_rel R \<Longrightarrow> moves (\<lambda>s s'. R (fst s) (fst s')) (check_frame :: ('s \<times> packet, bool) prog)"
  by (auto simp: moves_def check_frame_def preorder_rel_def reflp_def)

lemmas fst_intros = preorder_fst moves_bnd moves_thn moves_if moves_case_option moves_ret moves_loop moves_fst_read1
  moves_fst_check moves_fst_outer

lemma moves_ReceiveFrameFrom:
  assumes "preorder_rel R" "moves R (ch_Read port 1)"
  shows "moves (\<lambda>s s'. R (fst s) (fst s')) (ReceiveFrameFrom port)"
  unfolding ReceiveFrameFrom_def scan_start_def scan_start_body_def collect_def collect_body_def clear_cache_def
    append_cache_def
  by (intro fst_intros assms moves_fst_cache [OF assms(1)]) auto

lemma moves_ReceiveAckFrom:
  assumes "preorder_rel R" "moves R (ch_Read port 1)" "moves R (ch_SetTimeOut port 10000000)"
  shows "moves (\<lambda>s s'. R (fst s) (fst s')) (ReceiveAckFrom port)"
  unfolding ReceiveAckFrom_def scan_start_def scan_start_body_def collect_ack_body_def clear_cache_def append_cache_def
  by (intro fst_intros assms moves_fst_cache [OF assms(1)]) auto

lemma no_throw_ReceiveFrameFrom: "no_throw (ch_Read port 1) \<Longrightarrow> no_throw (ReceiveFrameFrom port)"
  unfolding ReceiveFrameFrom_def scan_start_def scan_start_body_def collect_def collect_body_def clear_cache_def
    append_cache_def read1_def check_frame_def
  by (intro no_throw_rules) (auto simp: no_throw_def check_frame_def)

end
