(* ===== verification/Commands.thy ===== *)
theory Commands
  imports Packet
begin

text \<open>
  The packets the agent builds or takes apart itself: \<open>CmdPacket\<close> (CommunicationCommand.cpp), the
  history request of the server (HistoryDataRequestCmd.h) and the health report
  (MPHealthCheckCmdPacket.cpp).  The device is little-endian, so a field accessed without
  \<open>ntohs\<close>/\<open>htons\<close> has its low byte first.
\<close>

section \<open>CmdPacket\<close>

definition SetCommand :: "byte list \<Rightarrow> byte \<Rightarrow> packet" where
  "SetCommand szCmd Machine = BuildPacket (take 2 szCmd) Machine"

definition CommandType :: "packet \<Rightarrow> CommunicationCommand option" where
  "CommandType strCache = cmd_search strCache cmds"

section \<open>HistoryDataRequestCmd\<close>

definition peek16_host :: "byte list \<Rightarrow> nat \<Rightarrow> u16 option" where
  "peek16_host xs i = (case (peek xs i, peek xs (Suc i)) of (Some lo, Some hi) \<Rightarrow> Some (de16 hi lo) | _ \<Rightarrow> None)"

definition HistoryDataRequestCmd :: "packet \<Rightarrow> packet" where
  "HistoryDataRequestCmd pack = pack"

definition GetStartNum :: "packet \<Rightarrow> int option" where
  "GetStartNum strCache = map_option (\<lambda>w. int (unat w)) (peek16_host strCache 7)"

definition GetEndNum :: "packet \<Rightarrow> int option" where
  "GetEndNum strCache = map_option (\<lambda>w. int (unat w)) (peek16_host strCache 9)"

definition GetDataNumber :: "packet \<Rightarrow> int option" where
  "GetDataNumber strCache = map_option (\<lambda>w. int (unat w)) (peek16_host strCache 11)"

text \<open>A store outside the string is undefined behaviour.\<close>

definition SetStartNum :: "packet \<Rightarrow> u16 \<Rightarrow> packet option" where
  "SetStartNum strCache n =
     (if 8 < length strCache then Some (strCache[7 := ucast n, Suc 7 := ucast (drop_bit 8 n)]) else None)"

section \<open>MPHealthCheckCmdPacket\<close>

definition INT_COMM_ERR :: u32 where "INT_COMM_ERR = push_bit 17 1"
definition EXT_COMM_ERR :: u32 where "EXT_COMM_ERR = push_bit 18 1"

definition MPHealthCheck_nStatus :: "u32 \<Rightarrow> bool \<Rightarrow> bool \<Rightarrow> u32" where
  "MPHealthCheck_nStatus nStatus bIntErr bExtErr =
     (let nStatus = (if bIntErr then nStatus OR INT_COMM_ERR else nStatus AND NOT INT_COMM_ERR)
      in if bExtErr then nStatus OR EXT_COMM_ERR else nStatus AND NOT EXT_COMM_ERR)"

definition MPHealthCheckCmdPacket :: "u32 \<Rightarrow> byte \<Rightarrow> bool \<Rightarrow> bool \<Rightarrow> packet" where
  "MPHealthCheckCmdPacket nStatus Machine bIntErr bExtErr =
     BuildPacket
       ([cmdWord MPHealthCheck ! 0, cmdWord MPHealthCheck ! 1] @ [9, 0] @
        be32 (MPHealthCheck_nStatus nStatus bIntErr bExtErr)) Machine"

text \<open>The bit fields of \<open>struct MPStatus\<close> (Packet.h): bits are allocated from the least significant one.\<close>

definition MPStatus_extComErr :: "u32 \<Rightarrow> bool" where
  "MPStatus_extComErr st = bit st 17"

definition MPStatus_intComErr :: "u32 \<Rightarrow> bool" where
  "MPStatus_intComErr st = bit st 18"

section \<open>Commands\<close>

lemma SetCommand_cmdWord: "SetCommand (cmdWord c) m = BuildPacket (cmdWord c) m"
  by (cases c) (simp_all add: SetCommand_def cmdWord_def)

lemma CommandType_eq: "4 < length p \<Longrightarrow> CommandType p = FrameCommandType p"
  by (simp add: CommandType_def FrameCommandType_def)

lemma CommandType_undefined: "length p < 3 \<Longrightarrow> CommandType p = None"
  by (simp add: CommandType_def cmds_def peek_def)

lemma CommandType_BuildPacket:
  assumes "c \<noteq> CMD_END"
  shows "CommandType (BuildPacket (cmdWord c @ r) m) = Some c"
proof -
  obtain a b where "cmdWord c = [a, b]" using assms cmdWord_two by blast
  then show ?thesis
    unfolding CommandType_def using assms by (intro cmd_search_found) (simp_all add: BuildPacket_eq)
qed

text \<open>
  C22: the command frame the agent sends for a command of the table is accepted by the frame check of the
  receiver and read back as that command; on an empty buffer the same look-up reads out of bounds.
\<close>

theorem SetCommand_roundtrip:
  assumes "c \<noteq> CMD_END"
  shows "isFrameCRCOK (SetCommand (cmdWord c) m) \<and> CommandType (SetCommand (cmdWord c) m) = Some c \<and>
    CommandType [] = None"
  using assms BuildPacket_accepted_iff [of "cmdWord c" m] cmdWord_two [of c] CommandType_BuildPacket [of c "[]" m]
  by (auto simp: SetCommand_cmdWord CommandType_undefined)

theorem SetCommand_roundtrip_witness:
  "isFrameCRCOK (SetCommand (cmdWord GetCondition) 3) \<and>
   CommandType (SetCommand (cmdWord GetCondition) 3) = Some GetCondition"
  using SetCommand_roundtrip [of GetCondition 3] by simp

section \<open>History requests\<close>

lemma peek16_host_swap:
  "peek16_host xs i = map_option (\<lambda>w. de16 (ucast w) (ucast (drop_bit 8 w))) (peek16 xs i)"
  by (auto simp: peek16_host_def peek16_def split: option.splits)

lemma peek16_host_update:
  "Suc i < length xs \<Longrightarrow> peek16_host (xs[i := ucast n, Suc i := ucast (drop_bit 8 n)]) i = Some n"
  by (simp add: peek16_host_def peek_def)

text \<open>
  C23: \<open>SetStartNum\<close> does not recompute the checksum, so the request it leaves is rejected by the frame
  check of the monitoring post unless it asks for the record number that was in it already.
\<close>

theorem SetStartNum_stale_crc:
  assumes "isFrameCRCOK p" "11 < length p"
  shows "\<exists>p'. SetStartNum p n = Some p' \<and> GetStartNum p' = Some (int (unat n)) \<and>
    (isFrameCRCOK p' \<longleftrightarrow> GetStartNum p = Some (int (unat n)))"
proof -
  let ?p' = "p[7 := ucast n, Suc 7 := ucast (drop_bit 8 n)]"
  have "isFrameCRCOK ?p' \<longleftrightarrow> ucast n = p ! 7 \<and> ucast (drop_bit 8 n) = p ! Suc 7"
    using assms by (intro frame_burst) auto
  also have "\<dots> \<longleftrightarrow> de16 (p ! Suc 7) (p ! 7) = n"
    by (metis de16_be16 ucast_de16_hi ucast_de16_lo)
  also have "\<dots> \<longleftrightarrow> GetStartNum p = Some (int (unat n))"
    using assms(2) by (simp add: GetStartNum_def peek16_host_def peek_def flip: word_uint_eq_iff)
  finally show ?thesis
    using assms(2) peek16_host_update [of 7 p n] by (auto simp: SetStartNum_def GetStartNum_def)
qed

theorem SetStartNum_stale_crc_witness:
  "\<exists>p'. SetStartNum (BuildPacket [0x68, 0x61, 0, 6, 1, 0, 5, 0, 5, 0] 1) 2 = Some p' \<and> \<not> isFrameCRCOK p'"
proof -
  let ?p = "BuildPacket [0x68, 0x61, 0, 6, 1, 0, 5, 0, 5, 0] 1"
  have "isFrameCRCOK ?p" "11 < length ?p" by (simp_all add: BuildPacket_accepted_iff)
  from SetStartNum_stale_crc [OF this, of 2] show ?thesis
    by (auto simp: GetStartNum_def peek16_host_def BuildPacket_eq de16_def)
qed

text \<open>
  The record numbers of a history request are read in host byte order although the protocol sends them
  in network order (as \<open>GetDataNo\<close> reads the same field): every number is seen with its bytes exchanged.
\<close>

theorem history_byte_order:
  "GetStartNum (BuildPacket ([c0, c1, l0, l1] @ be16 first @ be16 final @ be16 num) m) =
     Some (int (unat (de16 (ucast first) (ucast (drop_bit 8 first))))) \<and>
   GetEndNum (BuildPacket ([c0, c1, l0, l1] @ be16 first @ be16 final @ be16 num) m) =
     Some (int (unat (de16 (ucast final) (ucast (drop_bit 8 final))))) \<and>
   GetDataNumber (BuildPacket ([c0, c1, l0, l1] @ be16 first @ be16 final @ be16 num) m) =
     Some (int (unat (de16 (ucast num) (ucast (drop_bit 8 num))))) \<and>
   GetDataNo (BuildPacket ([c0, c1, l0, l1] @ be16 first @ be16 final @ be16 num) m) = Some first"
  by (simp add: GetStartNum_def GetEndNum_def GetDataNumber_def GetDataNo_def peek16_host_def peek16_def
      BuildPacket_eq be16_def)

section \<open>Health reports\<close>

lemma bit_MPHealthCheck_nStatus:
  assumes "n < 32"
  shows "bit (MPHealthCheck_nStatus st i e) n \<longleftrightarrow> (if n = 17 then i else if n = 18 then e else bit st n)"
proof -
  have "bit INT_COMM_ERR n \<longleftrightarrow> n = 17" "bit EXT_COMM_ERR n \<longleftrightarrow> n = 18"
    using assms unfolding INT_COMM_ERR_def EXT_COMM_ERR_def bit_push_bit_iff by (auto simp: bit_1_iff)
  with assms show ?thesis
    by (auto simp: MPHealthCheck_nStatus_def bit_or_iff bit_and_iff bit_not_iff Let_def)
qed

text \<open>
  C24: the health report is a valid frame of command \<open>wa\<close>.  It carries the status of the monitoring post with
  bits 17 and 18 replaced by the internal and external error flags; read through the bit fields of
  \<open>struct MPStatus\<close>, the two flags come out exchanged.
\<close>

theorem MPHealthCheckCmdPacket_status:
  "isFrameCRCOK (MPHealthCheckCmdPacket st m bIntErr bExtErr) \<and>
   CommandType (MPHealthCheckCmdPacket st m bIntErr bExtErr) = Some MPHealthCheck \<and>
   (\<exists>w. peek32 (MPHealthCheckCmdPacket st m bIntErr bExtErr) 7 = Some w \<and>
      (\<forall>n < 32. bit w n = (if n = 17 then bIntErr else if n = 18 then bExtErr else bit st n)) \<and>
      MPStatus_extComErr w = bIntErr \<and> MPStatus_intComErr w = bExtErr)"
proof -
  let ?w = "MPHealthCheck_nStatus st bIntErr bExtErr"
  have eq: "MPHealthCheckCmdPacket st m bIntErr bExtErr =
      BuildPacket (cmdWord MPHealthCheck @ [9, 0] @ be32 ?w) m"
    by (simp add: MPHealthCheckCmdPacket_def cmdWord_simps)
  have "peek32 (BuildPacket (cmdWord MPHealthCheck @ [9, 0] @ be32 ?w) m) 7 = Some ?w"
    by (simp add: peek32_def BuildPacket_eq cmdWord_simps be32_def)
  then show ?thesis
    using CommandType_BuildPacket [of MPHealthCheck] bit_MPHealthCheck_nStatus [of _ st bIntErr bExtErr]
    by (simp add: eq BuildPacket_accepted_iff MPStatus_extComErr_def MPStatus_intComErr_def)
qed

theorem MPHealthCheckCmdPacket_status_witness:
  "\<exists>w. peek32 (MPHealthCheckCmdPacket 0 1 True False) 7 = Some w \<and> bit w 17 \<and> MPStatus_extComErr w"
proof -
  have "(17 :: nat) < 32" by simp
  with MPHealthCheckCmdPacket_status [of 0 1 True False] show ?thesis by auto
qed

end
