(* ===== verification/Frames.thy ===== *)
theory Frames
  imports Commands
begin

text \<open>
  The frames as the headers declare them (Packet.h, HistoryDataRequestCmd.h, MPHealthCheckCmdPacket.h): the
  \<open>struct\<close> types, the layout the compiler gives them, and the proof that the accessors of \<open>Packet\<close> and
  \<open>HistoryDataRequestCmd\<close> read the declared fields.
\<close>

section \<open>Layout of structures\<close>

text \<open>The flag of a structure is \<open>__attribute__ ((packed))\<close>.\<close>

datatype ctype =
    Chars nat
  | UShort
  | UInt
  | Struct bool "(string \<times> ctype) list"

definition align :: "nat \<Rightarrow> nat \<Rightarrow> nat" where
  "align n a = (n + a - 1) div a * a"

fun alignof :: "ctype \<Rightarrow> nat" and alignofs :: "(string \<times> ctype) list \<Rightarrow> nat" where
  "alignof (Chars n) = 1"
| "alignof UShort = 2"
| "alignof UInt = 4"
| "alignof (Struct packed fs) = (if packed then 1 else alignofs fs)"
| "alignofs [] = 1"
| "alignofs ((f, t) # fs) = max (alignof t) (alignofs fs)"

definition place :: "bool \<Rightarrow> nat \<Rightarrow> ctype \<Rightarrow> nat" where
  "place packed n t = (if packed then n else align n (alignof t))"

fun sizeof :: "ctype \<Rightarrow> nat" and sizeofs :: "bool \<Rightarrow> nat \<Rightarrow> (string \<times> ctype) list \<Rightarrow> nat" where
  "sizeof (Chars n) = n"
| "sizeof UShort = 2"
| "sizeof UInt = 4"
| "sizeof (Struct packed fs) = align (sizeofs packed 0 fs) (alignof (Struct packed fs))"
| "sizeofs packed n [] = n"
| "sizeofs packed n ((f, t) # fs) = sizeofs packed (place packed n t + sizeof t) fs"

text \<open>A member of a structure: its offset and its type.\<close>

fun member_at :: "bool \<Rightarrow> nat \<Rightarrow> (string \<times> ctype) list \<Rightarrow> string \<Rightarrow> (nat \<times> ctype) option" where
  "member_at packed n [] x = None"
| "member_at packed n ((f, t) # fs) x =
     (let i = place packed n t in if f = x then Some (i, t) else member_at packed (i + sizeof t) fs x)"

fun field :: "ctype \<Rightarrow> string list \<Rightarrow> (nat \<times> ctype) option" where
  "field t [] = Some (0, t)"
| "field (Struct packed fs) (x # xs) =
     (case member_at packed 0 fs x of
        None \<Rightarrow> None
      | Some (i, t) \<Rightarrow> map_option (\<lambda>(j, u). (i + j, u)) (field t xs))"
| "field t (x # xs) = None"

section \<open>The declared structures\<close>

definition FrameHead :: ctype where
  "FrameHead = Struct True [(''SOH'', Chars 1), (''Machine'', Chars 1), (''STX'', Chars 1)]"

definition FrameEnd :: ctype where
  "FrameEnd = Struct True [(''ETX'', Chars 1), (''CRC16'', UShort), (''EOT'', Chars 1)]"

definition FrameTime :: ctype where
  "FrameTime =
     Struct False [(''year'', UShort), (''month'', Chars 1), (''day'', Chars 1), (''hour'', Chars 1), (''minute'', Chars 1)]"

definition DataPacketFrame :: ctype where
  "DataPacketFrame =
     Struct True [(''head'', FrameHead), (''cmd'', Chars 2), (''length'', UShort), (''dataNo'', UShort), (''dummy'', Chars 65)]"

definition PortAssignFrame :: ctype where
  "PortAssignFrame = Struct True [(''head'', FrameHead), (''cmd'', Chars 2), (''port'', UShort)]"

definition HealthCheckStatusAnswerFrame :: ctype where
  "HealthCheckStatusAnswerFrame =
     Struct True [(''head'', FrameHead), (''cmd'', Chars 2), (''length'', UShort), (''DataNo'', UShort),
       (''time'', FrameTime), (''nStatus'', UInt), (''end'', FrameEnd)]"

definition AcKFrame :: ctype where
  "AcKFrame = Struct True [(''ack'', Chars 1), (''Machine'', Chars 1), (''cmd'', Chars 2), (''dataNumber'', UShort)]"

definition GetTimeFrame :: ctype where
  "GetTimeFrame =
     Struct True [(''head'', FrameHead), (''cmd'', Chars 2), (''length'', UShort), (''time'', FrameTime),
       (''second'', Chars 1), (''end'', FrameEnd)]"

definition ConditionFrame :: ctype where
  "ConditionFrame =
     Struct True [(''head'', FrameHead), (''cmd'', Chars 2), (''length'', UShort), (''nInterval'', Chars 1),
       (''dummy'', Chars 26), (''end'', FrameEnd)]"

definition HistoryDataRequestFrame :: ctype where
  "HistoryDataRequestFrame =
     Struct True [(''head'', FrameHead), (''cmd'', Chars 2), (''length'', UShort), (''startNo'', UShort),
       (''endNo'', UShort), (''dataNum'', UShort), (''end'', FrameEnd)]"

definition MPHealthCheckCmdContent :: ctype where
  "MPHealthCheckCmdContent = Struct True [(''cmd'', Chars 2), (''length'', UShort), (''nStatus'', UInt)]"

section \<open>Fields lie inside their structure\<close>

lemma align_ge: "0 < a \<Longrightarrow> n \<le> align n a"
proof -
  assume a: "0 < a"
  have "n + a - 1 < align n a + a"
    unfolding align_def using div_mult_mod_eq [of "n + a - 1" a] mod_less_divisor [OF a, of "n + a - 1"] by linarith
  then show ?thesis by linarith
qed

lemma alignof_pos: "0 < alignof t" "0 < alignofs fs"
  by (induction t and fs rule: alignof_alignofs.induct) auto

lemma place_ge: "n \<le> place packed n t"
  by (simp add: place_def align_ge alignof_pos)

lemma sizeofs_ge: "n \<le> sizeofs packed n fs"
proof (induction fs arbitrary: n)
  case (Cons x fs)
  obtain f t where x: "x = (f, t)" by fastforce
  from Cons.IH [of "place packed n t + sizeof t"] place_ge [of n packed t] show ?case by (simp add: x)
qed simp

lemma member_in_bounds: "member_at packed n fs x = Some (i, t) \<Longrightarrow> i + sizeof t \<le> sizeofs packed n fs"
proof (induction packed n fs x rule: member_at.induct)
  case (2 packed n f t' fs x)
  then show ?case
    using sizeofs_ge [of "place packed n t' + sizeof t'" packed fs] by (auto simp: Let_def split: if_splits)
qed simp

lemma field_in_bounds: "field t xs = Some (i, u) \<Longrightarrow> i + sizeof u \<le> sizeof t"
proof (induction t xs arbitrary: i u rule: field.induct)
  case (2 packed fs x xs)
  then obtain j t k where m: "member_at packed 0 fs x = Some (j, t)" "field t xs = Some (k, u)" "i = j + k"
    by (auto split: option.splits)
  have "k + sizeof u \<le> sizeof t" by (rule "2.IH" [OF m(1) refl m(2)])
  moreover have "j + sizeof t \<le> sizeofs packed 0 fs" by (rule member_in_bounds [OF m(1)])
  ultimately show ?case
    using align_ge [OF alignof_pos(1), of "sizeofs packed 0 fs" "Struct packed fs"] m(3) by simp
qed simp_all

section \<open>Reading fields\<close>

text \<open>
  A field of a packet that is taken for a structure, in network order (\<open>ntohs\<close>, \<open>ntohl\<close>) or in the order
  of the little-endian host; \<open>None\<close> when there is no such field or it lies outside the packet.
\<close>

definition field8 :: "ctype \<Rightarrow> string list \<Rightarrow> packet \<Rightarrow> byte option" where
  "field8 t xs p = (case field t xs of Some (i, Chars n) \<Rightarrow> if n = 1 then peek p i else None | _ \<Rightarrow> None)"

definition field16 :: "ctype \<Rightarrow> string list \<Rightarrow> packet \<Rightarrow> u16 option" where
  "field16 t xs p = (case field t xs of Some (i, UShort) \<Rightarrow> peek16 p i | _ \<Rightarrow> None)"

definition field16_host :: "ctype \<Rightarrow> string list \<Rightarrow> packet \<Rightarrow> u16 option" where
  "field16_host t xs p = (case field t xs of Some (i, UShort) \<Rightarrow> peek16_host p i | _ \<Rightarrow> None)"

definition field32 :: "ctype \<Rightarrow> string list \<Rightarrow> packet \<Rightarrow> u32 option" where
  "field32 t xs p = (case field t xs of Some (i, UInt) \<Rightarrow> peek32 p i | _ \<Rightarrow> None)"

lemmas read_defs = field8_def field16_def field16_host_def field32_def

lemma field_defined:
  assumes "sizeof t \<le> length p"
  shows "field t xs = Some (i, Chars 1) \<Longrightarrow> field8 t xs p \<noteq> None"
    and "field t xs = Some (i, UShort) \<Longrightarrow> field16 t xs p \<noteq> None \<and> field16_host t xs p \<noteq> None"
    and "field t xs = Some (i, UInt) \<Longrightarrow> field32 t xs p \<noteq> None"
  using assms field_in_bounds [of t xs i] by (fastforce simp: read_defs peek_def peek16_def peek16_host_def peek32_def)+

lemma number_fields:
  "field DataPacketFrame [''dataNo''] = Some (7, UShort)"
  "field HealthCheckStatusAnswerFrame [''DataNo''] = Some (7, UShort)"
  "field PortAssignFrame [''port''] = Some (5, UShort)"
  "field HealthCheckStatusAnswerFrame [''nStatus''] = Some (15, UInt)"
  "field ConditionFrame [''nInterval''] = Some (7, Chars 1)"
  "field AcKFrame [''dataNumber''] = Some (4, UShort)"
  "field HistoryDataRequestFrame [''startNo''] = Some (7, UShort)"
  "field HistoryDataRequestFrame [''endNo''] = Some (9, UShort)"
  "field HistoryDataRequestFrame [''dataNum''] = Some (11, UShort)"
  by code_simp+

lemma time_fields:
  "field GetTimeFrame [''time'', ''year''] = Some (7, UShort)"
  "field GetTimeFrame [''time'', ''month''] = Some (9, Chars 1)"
  "field GetTimeFrame [''time'', ''day''] = Some (10, Chars 1)"
  "field GetTimeFrame [''time'', ''hour''] = Some (11, Chars 1)"
  "field GetTimeFrame [''time'', ''minute''] = Some (12, Chars 1)"
  "field GetTimeFrame [''second''] = Some (13, Chars 1)"
  "field GetTimeFrame [''cmd''] = Some (3, Chars 2)"
  by code_simp+



end
