(* ===== verification/PacketQueue.thy ===== *)
theory PacketQueue
  imports Packet "HOL-Library.Sublist"
begin

text \<open>
  \<open>class DataPacketQueue\<close> (PacketQueue.h, PacketQueue.cpp): the FIFO of packets waiting to be sent, and
  its copy in a file that survives a restart.  The object is its \<open>list<Packet>\<close>; each method runs under
  the mutex (\<open>Load\<close> runs before the other threads exist), so it is one step.

  \<open>None\<close> stands for the undefined cases: \<open>front\<close>/\<open>pop_front\<close> of an empty list, dereferencing the end
  iterator, and the record number of a packet that is too short to have one.
\<close>

type_synonym queue = "packet list"

section \<open>Operations\<close>

fun push_scan :: "queue \<Rightarrow> u16 \<Rightarrow> bool option" where
  "push_scan [] dataNo = Some False"
| "push_scan (it # its) dataNo =
     (case GetDataNo it of
        None \<Rightarrow> None
      | Some k \<Rightarrow> if k = dataNo then Some True else push_scan its dataNo)"

definition Push :: "queue \<Rightarrow> packet \<Rightarrow> queue option" where
  "Push queue data =
     (case GetDataNo data of
        None \<Rightarrow> None
      | Some dataNo \<Rightarrow>
          if length data \<noteq> 0 then
            (case push_scan queue dataNo of
               None \<Rightarrow> None
             | Some found \<Rightarrow> if found then Some queue else Some (queue @ [data]))
          else Some queue)"

definition Front :: "queue \<Rightarrow> packet option" where
  "Front queue = (case queue of [] \<Rightarrow> None | p # _ \<Rightarrow> Some p)"

fun GetAt_loop :: "queue \<Rightarrow> int \<Rightarrow> int \<Rightarrow> packet option" where
  "GetAt_loop [] count i = None"
| "GetAt_loop (it # its) count i = (if count = i then Some it else GetAt_loop its (count + 1) i)"

definition GetAt :: "queue \<Rightarrow> int \<Rightarrow> packet option" where
  "GetAt queue i = GetAt_loop queue 0 i"

definition Pop :: "queue \<Rightarrow> queue option" where
  "Pop queue = (case queue of [] \<Rightarrow> None | _ # q \<Rightarrow> Some q)"

definition GetSize :: "queue \<Rightarrow> int" where
  "GetSize queue = int (length queue)"

section \<open>The file copy\<close>

text \<open>An \<open>int\<close> in memory: four bytes, low byte first.\<close>

definition int_bytes :: "nat \<Rightarrow> byte list" where
  "int_bytes n = rev (be32 (word_of_nat n))"

definition int_at :: "byte list \<Rightarrow> int" where
  "int_at bs = sint (de32 (bs ! 3) (bs ! 2) (bs ! 1) (bs ! 0))"

text \<open>\<open>write\<close> to a regular file: the count that was written is the smaller of the reply and the request.\<close>

definition write_file :: "int \<Rightarrow> string \<Rightarrow> byte list \<Rightarrow> ('z world_scheme, int) prog" where
  "write_file fd szFile bs =
     bnd (syscall (EvWrite fd bs))
       (\<lambda>r. let n = min (r_ret r) (int (length bs)) in
          thn (modify (\<lambda>w. w\<lparr>files := (files w)(szFile := map_option (\<lambda>c. c @ take (nat n) bs) (files w szFile))\<rparr>))
            (ret n))"

fun Save_loop :: "int \<Rightarrow> string \<Rightarrow> queue \<Rightarrow> ('z world_scheme, unit) prog" where
  "Save_loop fd szFile [] = ret ()"
| "Save_loop fd szFile (it # its) =
     (let n = length it in
      if n \<noteq> 0 then
        bnd (write_file fd szFile (int_bytes n))
          (\<lambda>k. if k \<noteq> 4 then ret ()
               else bnd (write_file fd szFile it) (\<lambda>k. if int n \<noteq> k then ret () else Save_loop fd szFile its))
      else Save_loop fd szFile its)"

definition Save :: "string \<Rightarrow> queue \<Rightarrow> ('z world_scheme, unit) prog" where
  "Save szFile queue =
     bnd (syscall (EvOpen szFile))
       (\<lambda>r. let fd = r_ret r in
          if fd < 0 then ret ()
          else thn (modify (\<lambda>w. w\<lparr>files := (files w)(szFile := Some [])\<rparr>))
                 (thn (Save_loop fd szFile queue) (emit (EvClose fd))))"

text \<open>
  The reading loop of \<open>Load\<close> over the unread part of the file.  When fewer than four bytes are left the
  \<open>fread\<close> of the length fails and the loop ends; when a record is cut short its \<open>fread\<close> takes
  what is left, and the loop ends at the next test.
\<close>

function load_loop :: "queue \<Rightarrow> byte list \<Rightarrow> queue option" where
  "load_loop queue bs =
     (if length bs < 4 then Some queue
      else
        let n = int_at bs; rest = drop 4 bs in
        if n > 0 \<and> n < 5000 then
          (if nat n \<le> length rest then
             let packet = SetPacket (take (nat n) rest) in
             if isFrameCRCOK packet then
               (case Push queue packet of
                  None \<Rightarrow> None
                | Some q \<Rightarrow> load_loop q (drop (nat n) rest))
             else load_loop queue (drop (nat n) rest)
           else Some queue)
        else load_loop queue rest)"
  by pat_completeness auto
termination
  by (relation "measure (\<lambda>(q, bs). length bs)") auto

declare load_loop.simps [simp del]

definition Load :: "string \<Rightarrow> ('z world_scheme \<times> queue, unit) prog" where
  "Load szFile =
     bnd (outer (syscall (EvOpen szFile)))
       (\<lambda>r. bnd (gets (\<lambda>(w, q). files w szFile))
          (\<lambda>content. case content of
             None \<Rightarrow> ret ()
           | Some bs \<Rightarrow>
               if r_ret r < 0 then ret ()
               else bnd (of_opt (load_loop [] bs)) (\<lambda>q. modify (\<lambda>(w, _). (w, q)))))"

section \<open>The queue invariant\<close>

text \<open>Every packet is long enough to carry a record number, and no number occurs twice.\<close>

definition numbered :: "packet \<Rightarrow> bool" where
  "numbered p = (8 \<le> length p)"

definition queue_ok :: "queue \<Rightarrow> bool" where
  "queue_ok q = (list_all numbered q \<and> distinct (map GetDataNo q))"

lemma numbered_DataNo: "numbered p \<Longrightarrow> \<exists>n. GetDataNo p = Some n"
  by (auto simp: numbered_def GetDataNo_def peek16_def peek_def)

lemma GetDataNo_Nil [simp]: "GetDataNo [] = Some 0"
  by (simp add: GetDataNo_def)

lemma queue_ok_Nil [simp]: "queue_ok []"
  by (simp add: queue_ok_def)

lemma queue_ok_Cons [simp]:
  "queue_ok (p # q) \<longleftrightarrow> numbered p \<and> GetDataNo p \<notin> GetDataNo ` set q \<and> queue_ok q"
  by (auto simp: queue_ok_def)

lemma queue_ok_snoc:
  "queue_ok (q @ [p]) \<longleftrightarrow> queue_ok q \<and> numbered p \<and> GetDataNo p \<notin> GetDataNo ` set q"
  by (auto simp: queue_ok_def)

lemma push_scan_ok:
  "list_all numbered q \<Longrightarrow> push_scan q n = Some (Some n \<in> GetDataNo ` set q)"
proof (induction q)
  case (Cons p q)
  moreover obtain k where "GetDataNo p = Some k" using Cons.prems numbered_DataNo by auto
  ultimately show ?case by auto
qed simp

lemma Push_ok:
  assumes "queue_ok q" "numbered p"
  shows "Push q p = Some (if GetDataNo p \<in> GetDataNo ` set q then q else q @ [p])"
proof -
  obtain n where n: "GetDataNo p = Some n" using assms(2) numbered_DataNo by blast
  have "p \<noteq> []" using assms(2) by (auto simp: numbered_def)
  with n assms show ?thesis by (simp add: Push_def push_scan_ok queue_ok_def)
qed

lemma Push_Nil: "Push q [] = Some q"
  by (simp add: Push_def)

lemma Push_queue_ok: "queue_ok q \<Longrightarrow> numbered p \<Longrightarrow> Push q p = Some q' \<Longrightarrow> queue_ok q'"
  by (auto simp: Push_ok queue_ok_snoc split: if_splits)

lemma isFrameCRCOK_numbered: "isFrameCRCOK p \<Longrightarrow> numbered p"
  using isFrameCRCOK_length [of p] by (simp add: numbered_def)

lemma Pop_queue_ok: "queue_ok q \<Longrightarrow> Pop q = Some q' \<Longrightarrow> queue_ok q'"
  by (auto simp: Pop_def split: list.splits)

section \<open>The contract of a packet queue\<close>

primrec push_all :: "('q \<Rightarrow> packet \<Rightarrow> 'q option) \<Rightarrow> packet list \<Rightarrow> 'q \<Rightarrow> 'q option" where
  "push_all push [] q = Some q"
| "push_all push (p # ps) q = (case push q p of None \<Rightarrow> None | Some q' \<Rightarrow> push_all push ps q')"

primrec drain :: "('q \<Rightarrow> packet option) \<Rightarrow> ('q \<Rightarrow> 'q option) \<Rightarrow> nat \<Rightarrow> 'q \<Rightarrow> packet list option" where
  "drain front pop 0 q = Some []"
| "drain front pop (Suc n) q =
     (case (front q, pop q) of
        (Some p, Some q') \<Rightarrow> map_option (\<lambda>ps. p # ps) (drain front pop n q')
      | _ \<Rightarrow> None)"

locale packet_fifo =
  fixes ok :: "'q \<Rightarrow> bool" and contents :: "'q \<Rightarrow> packet list" and empty :: 'q
    and push :: "'q \<Rightarrow> packet \<Rightarrow> 'q option" and front :: "'q \<Rightarrow> packet option" and pop :: "'q \<Rightarrow> 'q option"
    and size :: "'q \<Rightarrow> int"
  assumes ok_empty: "ok empty" and contents_empty: "contents empty = []"
    and push_law: "ok q \<Longrightarrow> numbered p \<Longrightarrow> \<exists>q'. push q p = Some q' \<and> ok q' \<and>
      contents q' = (if GetDataNo p \<in> GetDataNo ` set (contents q) then contents q else contents q @ [p])"
    and front_law: "contents q = p # ps \<Longrightarrow> front q = Some p"
    and pop_law: "ok q \<Longrightarrow> contents q = p # ps \<Longrightarrow> \<exists>q'. pop q = Some q' \<and> ok q' \<and> contents q' = ps"
    and size_law: "size q = int (length (contents q))"
    and unique_law: "ok q \<Longrightarrow> distinct (map GetDataNo (contents q))"
begin

lemma push_all_contents:
  assumes "list_all numbered ps" "ok q"
  shows "\<exists>q' ds. push_all push ps q = Some q' \<and> ok q' \<and> contents q' = contents q @ ds \<and> subseq ds ps \<and>
    GetDataNo ` set (contents q') = GetDataNo ` set (contents q) \<union> GetDataNo ` set ps"
  using assms
proof (induction ps arbitrary: q)
  case Nil
  then show ?case by auto
next
  case (Cons p ps)
  obtain q1 where q1: "push q p = Some q1" "ok q1"
    "contents q1 = (if GetDataNo p \<in> GetDataNo ` set (contents q) then contents q else contents q @ [p])"
    using push_law [of q p] Cons.prems by auto
  obtain q' ds where q': "push_all push ps q1 = Some q'" "ok q'" "contents q' = contents q1 @ ds" "subseq ds ps"
    "GetDataNo ` set (contents q') = GetDataNo ` set (contents q1) \<union> GetDataNo ` set ps"
    using Cons.IH [of q1] Cons.prems q1(2) by auto
  show ?case
  proof (cases "GetDataNo p \<in> GetDataNo ` set (contents q)")
    case True
    with q1 q' show ?thesis by (intro exI [of _ q'] exI [of _ ds]) auto
  next
    case False
    with q1 q' show ?thesis by (intro exI [of _ q'] exI [of _ "p # ds"]) auto
  qed
qed

lemma drain_contents:
  "ok q \<Longrightarrow> contents q = ps \<Longrightarrow> drain front pop (length ps) q = Some ps"
proof (induction ps arbitrary: q)
  case (Cons p ps)
  from pop_law [OF Cons.prems] obtain q' where q': "pop q = Some q'" "ok q'" "contents q' = ps" by blast
  with Cons.IH [OF q'(2,3)] front_law [OF Cons.prems(2)] show ?case by simp
qed simp

lemma fifo:
  assumes "list_all numbered ps"
  shows "\<exists>q ds. push_all push ps empty = Some q \<and> drain front pop (nat (size q)) q = Some ds \<and> subseq ds ps \<and>
    distinct (map GetDataNo ds) \<and> GetDataNo ` set ds = GetDataNo ` set ps"
proof -
  obtain q' ds where q': "push_all push ps empty = Some q'" "ok q'" "contents q' = ds" "subseq ds ps"
    "GetDataNo ` set (contents q') = GetDataNo ` set ps"
    using push_all_contents [OF assms ok_empty] contents_empty by auto
  with drain_contents [OF q'(2) refl] unique_law [OF q'(2)] show ?thesis
    by (intro exI [of _ q'] exI [of _ ds]) (auto simp: size_law)
qed

end

interpretation dq: packet_fifo queue_ok "\<lambda>q. q" "[]" Push Front Pop GetSize
  by unfold_locales (auto simp: Push_ok queue_ok_snoc Front_def Pop_def GetSize_def queue_ok_def)

text \<open>
  C11: packets come out of the queue in the order they were pushed, exactly one packet for every record number
  that was pushed.
\<close>

theorem queue_fifo:
  assumes "list_all numbered ps"
  shows "\<exists>q ds. push_all Push ps [] = Some q \<and> drain Front Pop (nat (GetSize q)) q = Some ds \<and> subseq ds ps \<and>
    distinct (map GetDataNo ds) \<and> GetDataNo ` set ds = GetDataNo ` set ps"
  using assms by (rule dq.fifo)

theorem queue_fifo_witness:
  "\<exists>q ds. push_all Push [[1, 0, 2, 0x72, 0x61, 0, 0, 0, 7], [1, 0, 2, 0x72, 0x61, 0, 0, 0, 7]] [] = Some q \<and>
     drain Front Pop (nat (GetSize q)) q = Some ds \<and> GetDataNo ` set ds = {Some 7}"
proof -
  have "list_all numbered [[1, 0, 2, 0x72, 0x61, 0, 0, 0, 7], [1, 0, 2, 0x72, 0x61, 0, 0, 0, 7]]"
    by (simp add: numbered_def)
  from queue_fifo [OF this] show ?thesis by (auto simp: GetDataNo_def peek16_def de16_def)
qed

lemma GetAt_loop_eq: "GetAt_loop q c i = (if c \<le> i \<and> i < c + int (length q) then Some (q ! nat (i - c)) else None)"
proof (induction q arbitrary: c)
  case (Cons p q)
  have "nat (i - c) = Suc (nat (i - (c + 1)))" if "c < i" using that by simp
  with Cons show ?case by auto
qed simp

lemma GetAt_eq: "GetAt q i = (if 0 \<le> i \<and> i < int (length q) then Some (q ! nat i) else None)"
  by (simp add: GetAt_def GetAt_loop_eq)

section \<open>The file copy survives crashes\<close>

definition savable :: "packet \<Rightarrow> bool" where
  "savable p = (isFrameCRCOK p \<and> length p < 5000)"

definition encode :: "queue \<Rightarrow> byte list" where
  "encode q = concat (map (\<lambda>p. if p = [] then [] else int_bytes (length p) @ p) q)"

lemma encode_simps [simp]:
  "encode [] = []"
  "encode (p # q) = (if p = [] then [] else int_bytes (length p) @ p) @ encode q"
  by (simp_all add: encode_def)

lemma length_int_bytes [simp]: "length (int_bytes n) = 4"
  by (simp add: int_bytes_def)

lemma int_at_int_bytes:
  assumes "n < 5000"
  shows "int_at (int_bytes n @ bs) = int n"
proof -
  have "unat (word_of_nat n :: u32) = n" using assms by (simp add: unat_of_nat take_bit_nat_eq_self)
  with assms have "sint (word_of_nat n :: u32) = int n"
    by (simp add: sint_uint signed_take_bit_int_eq_self uint_nat)
  then show ?thesis
    by (simp add: int_at_def int_bytes_def be32_def)
qed

lemma savable_numbered: "savable p \<Longrightarrow> numbered p \<and> p \<noteq> []"
  using isFrameCRCOK_numbered by (auto simp: savable_def numbered_def)

lemma load_loop_encode:
  assumes "list_all savable q2" "queue_ok (q1 @ q2)"
  shows "\<exists>j. load_loop q1 (take k (encode q2)) = Some (q1 @ take j q2) \<and> (length (encode q2) \<le> k \<longrightarrow> length q2 \<le> j)"
  using assms
proof (induction q2 arbitrary: q1 k)
  case Nil
  then show ?case by (simp add: load_loop.simps)
next
  case (Cons p q2)
  let ?rest = "take (k - 4) (p @ encode q2)"
  have p: "savable p" "p \<noteq> []" "numbered p" using Cons.prems savable_numbered by auto
  have prems': "list_all savable q2" "queue_ok ((q1 @ [p]) @ q2)" using Cons.prems by simp_all
  have dec: "take k (encode (p # q2)) = take k (int_bytes (length p)) @ ?rest" using p(2) by simp
  show ?case
  proof (cases "4 \<le> k \<and> length p \<le> k - 4")
    case True
    then have fits: "length p \<le> length ?rest" by simp
    have "load_loop q1 (take k (encode (p # q2))) = load_loop (q1 @ [p]) (take (k - 4 - length p) (encode q2))"
      using True p fits Cons.prems(2) Push_ok [of q1 p]
      by (subst load_loop.simps)
        (auto simp: dec int_at_int_bytes savable_def SetPacket_def Let_def queue_ok_def)
    moreover obtain j where "load_loop (q1 @ [p]) (take (k - 4 - length p) (encode q2)) = Some ((q1 @ [p]) @ take j q2)"
      "length (encode q2) \<le> k - 4 - length p \<longrightarrow> length q2 \<le> j"
      using Cons.IH [OF prems', of "k - 4 - length p"] by blast
    ultimately show ?thesis using p(2) by (intro exI [of _ "Suc j"]) auto
  next
    case False
    then have "load_loop q1 (take k (encode (p # q2))) = Some q1"
      using p by (subst load_loop.simps) (auto simp: dec int_at_int_bytes savable_def Let_def)
    with False p(2) show ?thesis by (intro exI [of _ 0]) auto
  qed
qed

lemma write_file_cases:
  assumes "write_file fd f bs w = (r, w')" "files w f = Some c"
  shows "(r = Pending \<and> w' = w) \<or> (\<exists>n. r = Val n \<and> n \<le> int (length bs) \<and> files w' f = Some (c @ take (nat n) bs))"
  using assms by (auto simp: write_file_def syscall_def bnd_def thn_def modify_def ret_def Let_def split: list.splits)

lemma Save_loop_prefix:
  "files w f = Some c \<Longrightarrow> \<exists>k. files (snd (Save_loop fd f q w)) f = Some (c @ take k (encode q))"
proof (induction q arbitrary: w c)
  case Nil
  then show ?case by (simp add: ret_def)
next
  case (Cons p q)
  show ?case
  proof (cases "p = []")
    case True
    then show ?thesis using Cons by simp
  next
    case False
    obtain r1 w1 where w1: "write_file fd f (int_bytes (length p)) w = (r1, w1)" by fastforce
    show ?thesis
    proof (cases "r1 = Val 4")
      case True
      then have c1: "files w1 f = Some (c @ int_bytes (length p))" using write_file_cases [OF w1 Cons.prems] by auto
      obtain r2 w2 where w2: "write_file fd f p w1 = (r2, w2)" by fastforce
      show ?thesis
      proof (cases "r2 = Val (int (length p))")
        case True
        then have "files w2 f = Some (c @ int_bytes (length p) @ p)" using write_file_cases [OF w2 c1] by auto
        then obtain k where "files (snd (Save_loop fd f q w2)) f = Some ((c @ int_bytes (length p) @ p) @ take k (encode q))"
          using Cons.IH [of w2 "c @ int_bytes (length p) @ p"] by auto
        then show ?thesis using w1 w2 True \<open>r1 = Val 4\<close> False
          by (intro exI [of _ "4 + length p + k"]) (simp add: bnd_def Let_def)
      next
        case other: False
        from write_file_cases [OF w2 c1] show ?thesis
        proof
          assume "r2 = Pending \<and> w2 = w1"
          then show ?thesis using w1 w2 \<open>r1 = Val 4\<close> False c1
            by (intro exI [of _ 4]) (simp add: bnd_def Let_def)
        next
          assume "\<exists>n. r2 = Val n \<and> n \<le> int (length p) \<and> files w2 f = Some ((c @ int_bytes (length p)) @ take (nat n) p)"
          then obtain n where "r2 = Val n" "n \<le> int (length p)" "files w2 f = Some ((c @ int_bytes (length p)) @ take (nat n) p)"
            by blast
          then show ?thesis using w1 w2 \<open>r1 = Val 4\<close> False other
            by (intro exI [of _ "4 + nat n"]) (auto simp: bnd_def ret_def Let_def)
        qed
      qed
    next
      case other: False
      from write_file_cases [OF w1 Cons.prems] show ?thesis
      proof
        assume "r1 = Pending \<and> w1 = w"
        then show ?thesis using w1 Cons.prems False by (intro exI [of _ 0]) (simp add: bnd_def Let_def)
      next
        assume "\<exists>n. r1 = Val n \<and> n \<le> int (length (int_bytes (length p))) \<and>
          files w1 f = Some (c @ take (nat n) (int_bytes (length p)))"
        then obtain n where "r1 = Val n" "n \<le> 4" "files w1 f = Some (c @ take (nat n) (int_bytes (length p)))" by auto
        then show ?thesis using w1 False other
          by (intro exI [of _ "nat n"]) (auto simp: bnd_def ret_def Let_def)
      qed
    qed
  qed
qed

lemma load_loop_safe:
  "queue_ok q \<Longrightarrow> list_all savable q \<Longrightarrow> \<exists>q'. load_loop q bs = Some q' \<and> queue_ok q' \<and> list_all savable q'"
proof (induction q bs rule: load_loop.induct)
  case (1 q bs)
  let ?n = "int_at bs" and ?rest = "drop 4 bs"
  let ?p = "take (nat ?n) ?rest"
  consider (short) "length bs < 4" | (range) "\<not> length bs < 4" "\<not> (?n > 0 \<and> ?n < 5000)"
    | (cut) "\<not> length bs < 4" "?n > 0 \<and> ?n < 5000" "\<not> nat ?n \<le> length ?rest"
    | (invalid) "\<not> length bs < 4" "?n > 0 \<and> ?n < 5000" "nat ?n \<le> length ?rest" "\<not> isFrameCRCOK ?p"
    | (valid) "\<not> length bs < 4" "?n > 0 \<and> ?n < 5000" "nat ?n \<le> length ?rest" "isFrameCRCOK ?p"
    by blast
  then show ?case
  proof cases
    case short
    with "1.prems" show ?thesis by (simp add: load_loop.simps)
  next
    case range
    then have "load_loop q bs = load_loop q ?rest" by (subst load_loop.simps) (auto simp: Let_def)
    with "1.IH"(3) [OF range(1) refl refl range(2) "1.prems"] show ?thesis by simp
  next
    case cut
    with "1.prems" show ?thesis by (subst load_loop.simps) (auto simp: Let_def)
  next
    case invalid
    then have "load_loop q bs = load_loop q (drop (nat ?n) ?rest)"
      by (subst load_loop.simps) (auto simp: Let_def SetPacket_def)
    with "1.IH"(2) [OF invalid(1) refl refl invalid(2,3) refl] invalid(4) "1.prems" show ?thesis
      by (simp add: SetPacket_def)
  next
    case valid
    define q1 where "q1 = (if GetDataNo ?p \<in> GetDataNo ` set q then q else q @ [?p])"
    have p: "numbered ?p" "savable ?p"
      using valid isFrameCRCOK_numbered by (auto simp: savable_def)
    then have push: "Push q ?p = Some q1" using Push_ok "1.prems"(1) by (simp add: q1_def)
    then have "load_loop q bs = load_loop q1 (drop (nat ?n) ?rest)"
      using valid by (subst load_loop.simps) (auto simp: Let_def SetPacket_def)
    moreover have "queue_ok q1" using Push_queue_ok [OF "1.prems"(1) p(1) push] .
    moreover have "list_all savable q1" using "1.prems"(2) p(2) by (simp add: q1_def)
    ultimately show ?thesis
      using "1.IH"(1) [OF valid(1) refl refl valid(2,3) refl] valid(4) push by (simp add: SetPacket_def)
  qed
qed

lemma Load_eq_Val:
  "Load f (w, q0) = (Val (), (w', q)) \<Longrightarrow>
     q = q0 \<or> (\<exists>bs. files w f = Some bs \<and> load_loop [] bs = Some q)"
  by (auto simp: Load_def bnd_def outer_def gets_def of_opt_def modify_def ret_def syscall_eq_Val
      split: prod.splits outcome.splits option.splits if_splits)

text \<open>
  C25: whatever bytes the file holds, \<open>Load\<close> does not run into undefined behaviour; if it returns, the queue
  satisfies its invariant and holds only frames that pass the checksum, or is the old queue when the file
  could not be opened.
\<close>

theorem Load_robust:
  "fst (Load f (w, q0)) \<noteq> Undef \<and>
   (\<forall>w' q. Load f (w, q0) = (Val (), (w', q)) \<longrightarrow> q = q0 \<or> (queue_ok q \<and> list_all savable q))"
proof
  have some: "load_loop [] bs = None \<Longrightarrow> False" for bs using load_loop_safe [of "[]" bs] by auto
  show "fst (Load f (w, q0)) \<noteq> Undef"
    by (auto dest: some simp: Load_def bnd_def outer_def gets_def of_opt_def modify_def ret_def syscall_def
        split: list.splits option.splits)
  show "\<forall>w' q. Load f (w, q0) = (Val (), (w', q)) \<longrightarrow> q = q0 \<or> (queue_ok q \<and> list_all savable q)"
  proof (intro allI impI)
    fix w' q
    assume "Load f (w, q0) = (Val (), (w', q))"
    then consider "q = q0" | bs where "load_loop [] bs = Some q" using Load_eq_Val by blast
    then show "q = q0 \<or> (queue_ok q \<and> list_all savable q)"
    proof cases
      case (2 bs)
      then show ?thesis using load_loop_safe [of "[]" bs] by auto
    qed simp
  qed
qed

theorem Load_robust_witness:
  "Load ''f'' ((world0 [reply0 3])\<lparr>files := [''f'' \<mapsto> [1, 0]]\<rparr>, []) =
     (Val (), ((world0 [])\<lparr>files := [''f'' \<mapsto> [1, 0]], trace := [EvOpen ''f'']\<rparr>, [])) \<and> queue_ok []"
proof -
  have "Load ''f'' ((world0 [reply0 3])\<lparr>files := [''f'' \<mapsto> [1, 0]]\<rparr>, []) =
     (Val (), ((world0 [])\<lparr>files := [''f'' \<mapsto> [1, 0]], trace := [EvOpen ''f'']\<rparr>, []))"
    by (simp add: Load_def bnd_def outer_def gets_def of_opt_def modify_def ret_def syscall_def load_loop.simps
        world0_def reply0_def)
  with Load_robust [of "''f''" "(world0 [reply0 3])\<lparr>files := [''f'' \<mapsto> [1, 0]]\<rparr>" "[]"] show ?thesis by auto
qed

lemma Save_files:
  assumes "Save f q w = (r, w')"
  shows "files w' f = files w f \<or> (\<exists>k. files w' f = Some (take k (encode q)))"
proof (cases "script w")
  case Nil
  with assms show ?thesis by (simp add: Save_def bnd_def syscall_def)
next
  case (Cons r0 rs)
  define w1 where "w1 = w\<lparr>script := rs, trace := trace w @ [EvOpen f], now := now w + int (r_dt r0),
    pending := pending w @ r_inf r0, files := (files w)(f := Some [])\<rparr>"
  show ?thesis
  proof (cases "r_ret r0 < 0")
    case True
    with assms Cons show ?thesis by (auto simp: Save_def bnd_def syscall_def ret_def)
  next
    case False
    then have "Save f q w = thn (Save_loop (r_ret r0) f q) (emit (EvClose (r_ret r0))) w1"
      using Cons by (simp add: Save_def bnd_def syscall_def thn_def modify_def w1_def Let_def)
    with assms have "files w' = files (snd (Save_loop (r_ret r0) f q w1))"
      by (auto simp: thn_def bnd_def emit_def modify_def split: prod.splits outcome.splits)
    with Save_loop_prefix [of w1 f "[]" "r_ret r0" q] show ?thesis by (auto simp: w1_def)
  qed
qed

text \<open>
  C26: crash safety of the file copy.  If \<open>Save\<close> is cut off at any point (or runs out of disk space at any
  byte), a later \<open>Load\<close> of what reached the disk recovers the front part of the saved queue, packet for packet
  (unless a file could not be opened at all).
\<close>

theorem Save_Load_crash:
  assumes "queue_ok q" "list_all savable q" "Save f q w = (r, w')" "files v f = files w' f" "files v f \<noteq> files w f"
    and "Load f (v, q0) = (Val (), (v', q'))" "q' \<noteq> q0"
  shows "\<exists>j. q' = take j q"
proof -
  obtain k where k: "files v f = Some (take k (encode q))" using Save_files [OF assms(3)] assms(4,5) by auto
  with Load_eq_Val [OF assms(6)] assms(7) have "load_loop [] (take k (encode q)) = Some q'" by auto
  moreover obtain j where "load_loop [] (take k (encode q)) = Some ([] @ take j q)"
    using load_loop_encode [of q "[]" k] assms(1,2) by auto
  ultimately show ?thesis by auto
qed

definition packet7 :: packet where
  "packet7 = BuildPacket [0x72, 0x61, 0, 2, 0, 7] 1"

lemma packet7: "queue_ok [packet7]" "list_all savable [packet7]" "length packet7 = 13"
  by (simp_all add: savable_def packet7_def BuildPacket_accepted_iff numbered_def)

theorem Save_Load_crash_witness:
  "\<exists>w' v'. Save ''f'' [packet7] (world0 [reply0 5, reply0 5]) = (Pending, w') \<and>
     Load ''f'' (w'\<lparr>script := [reply0 5]\<rparr>, [packet7]) = (Val (), (v', [])) \<and> (\<exists>j. [] = take j [packet7])"
proof -
  let ?w = "world0 [reply0 5, reply0 5]"
  let ?w' = "?w\<lparr>script := [], trace := [EvOpen ''f'', EvWrite 5 (int_bytes 13)], files := [''f'' \<mapsto> int_bytes 13]\<rparr>"
  let ?v = "?w'\<lparr>script := [reply0 5]\<rparr>"
  let ?v' = "?w'\<lparr>trace := [EvOpen ''f'', EvWrite 5 (int_bytes 13), EvOpen ''f'']\<rparr>"
  have save: "Save ''f'' [packet7] ?w = (Pending, ?w')"
    using packet7(3) by (auto simp: Save_def bnd_def syscall_def thn_def modify_def write_file_def ret_def world0_def
        reply0_def Let_def)
  have "load_loop [] (int_bytes 13) = Some []"
    using int_at_int_bytes [of 13 "[]"] by (simp add: load_loop.simps)
  then have load: "Load ''f'' (?v, [packet7]) = (Val (), (?v', []))"
    by (simp add: Load_def bnd_def outer_def gets_def of_opt_def modify_def syscall_def world0_def reply0_def)
  have "\<exists>j. [] = take j [packet7]"
    by (rule Save_Load_crash [OF packet7(1,2) save _ _ load]) (simp_all add: world0_def)
  with save load show ?thesis by blast
qed

text \<open>An environment that serves \<open>n\<close> calls and completes every one.\<close>

definition obliging :: "nat \<Rightarrow> 'z world_scheme \<Rightarrow> bool" where
  "obliging n w = (n \<le> length (script w) \<and> (\<forall>r \<in> set (script w). 5000 \<le> r_ret r))"

lemma write_file_obliging:
  assumes "obliging (Suc n) w" "length bs < 5000" "files w f = Some c"
  shows "\<exists>w'. write_file fd f bs w = (Val (int (length bs)), w') \<and> obliging n w' \<and> files w' f = Some (c @ bs)"
proof -
  obtain r rs where "script w = r # rs" using assms(1) by (cases "script w") (auto simp: obliging_def)
  with assms show ?thesis
    by (auto simp: write_file_def bnd_def syscall_def thn_def modify_def ret_def obliging_def Let_def min_def)
qed

lemma Save_loop_obliging:
  assumes "obliging (2 * length q) w" "list_all savable q" "files w f = Some c"
  shows "\<exists>w'. Save_loop fd f q w = (Val (), w') \<and> files w' f = Some (c @ encode q)"
  using assms
proof (induction q arbitrary: w c)
  case Nil
  then show ?case by (simp add: ret_def)
next
  case (Cons p q)
  have p: "p \<noteq> []" "length p < 5000" using Cons.prems(2) savable_numbered by (auto simp: savable_def)
  from Cons.prems obtain w1 where w1: "write_file fd f (int_bytes (length p)) w = (Val 4, w1)"
    "obliging (Suc (2 * length q)) w1" "files w1 f = Some (c @ int_bytes (length p))"
    using write_file_obliging [of "Suc (2 * length q)" w "int_bytes (length p)" f c fd] by auto
  then obtain w2 where w2: "write_file fd f p w1 = (Val (int (length p)), w2)" "obliging (2 * length q) w2"
    "files w2 f = Some (c @ int_bytes (length p) @ p)"
    using write_file_obliging [of "2 * length q" w1 p f _ fd] p by auto
  with Cons.IH [OF w2(2) _ w2(3)] Cons.prems(2) w1(1) p(1) show ?case
    by (auto simp: bnd_def Let_def)
qed

lemma Save_obliging:
  assumes "list_all savable q" "obliging (Suc (2 * length q)) w"
  shows "\<exists>w'. Save f q w = (Val (), w') \<and> files w' f = Some (encode q)"
proof -
  obtain r0 rs where sc: "script w = r0 # rs" using assms(2) by (cases "script w") (auto simp: obliging_def)
  define w1 where "w1 = w\<lparr>script := rs, trace := trace w @ [EvOpen f], now := now w + int (r_dt r0),
    pending := pending w @ r_inf r0, files := (files w)(f := Some [])\<rparr>"
  have "obliging (2 * length q) w1" "files w1 f = Some []" using assms(2) sc by (auto simp: obliging_def w1_def)
  then obtain w2 where w2: "Save_loop (r_ret r0) f q w1 = (Val (), w2)" "files w2 f = Some (encode q)"
    using Save_loop_obliging [of q w1 f "[]"] assms(1) by auto
  have "Save f q w = (Val (), w2\<lparr>trace := trace w2 @ [EvClose (r_ret r0)]\<rparr>)"
    using assms(2) sc w2(1)
    by (simp add: Save_def bnd_def syscall_def thn_def modify_def emit_def obliging_def w1_def [symmetric] Let_def)
  with w2(2) show ?thesis by simp
qed

lemma Load_encode:
  assumes "queue_ok q" "list_all savable q" "files v f = Some (encode q)" "script v = r # rs" "0 \<le> r_ret r"
  shows "Load f (v, q0) =
    (Val (), (v\<lparr>script := rs, trace := trace v @ [EvOpen f], now := now v + int (r_dt r), pending := pending v @ r_inf r\<rparr>, q))"
proof -
  obtain j where "load_loop [] (take (length (encode q)) (encode q)) = Some ([] @ take j q)" "length q \<le> j"
    using load_loop_encode [of q "[]" "length (encode q)"] assms(1,2) by auto
  then have "load_loop [] (encode q) = Some q" by simp
  with assms(3-5) show ?thesis
    by (simp add: Load_def bnd_def outer_def gets_def of_opt_def modify_def syscall_def)
qed



end
