(* ===== verification/TCPPort.thy ===== *)
theory TCPPort
  imports Packet
begin

text \<open>
  \<open>class TCPPort\<close> (TCPPort.h, TCPPort.cpp): the channel to the server and to the modem's command port.
  Methods are programs over the environment and the object.

  A new descriptor is at least 3, the standard streams being open.  The number of addresses
  \<open>getaddrinfo\<close> finds is \<open>r_num\<close> of its reply; \<open>recv\<close> delivers \<open>r_buf\<close>, cut to the requested length.
  The pair of \<open>setsockopt\<close> calls for the receive and send timeout is one event.
\<close>

definition new_fd :: "reply \<Rightarrow> int" where
  "new_fd r = (if r_ret r < 0 then -1 else 3 + r_ret r)"

record tcpport =
  nPort :: int
  strServerName :: string
  socketID :: int
  bConnected :: bool
  timeout :: int
  nNoRoute :: int
  tmLastAction :: timeval

type_synonym ('z, 'a) tcp = "('z world_scheme \<times> tcpport, 'a) prog"

definition EAGAIN :: int where "EAGAIN = 11"
definition EHOSTUNREACH :: int where "EHOSTUNREACH = 113"
definition ENETUNREACH :: int where "ENETUNREACH = 101"

definition TCPPort0 :: tcpport where
  "TCPPort0 =
     \<lparr>nPort = 0, strServerName = '''', socketID = -1, bConnected = False, timeout = 20000000, nNoRoute = 0,
      tmLastAction = Channel_tmLastAction\<rparr>"

definition getp :: "(tcpport \<Rightarrow> 'a) \<Rightarrow> ('z, 'a) tcp" where
  "getp f = gets (\<lambda>(w, p). f p)"

definition setp :: "(tcpport \<Rightarrow> tcpport) \<Rightarrow> ('z, unit) tcp" where
  "setp f = modify (\<lambda>(w, p). (w, f p))"

text \<open>\<open>gettimeofday(&tmLastAction, 0)\<close>.\<close>

definition touch :: "('z, unit) tcp" where
  "touch = modify (\<lambda>(w, p). (w, p\<lparr>tmLastAction := gettimeofday w\<rparr>))"

section \<open>Methods\<close>

definition TCPPort_SetTimeOut :: "int \<Rightarrow> ('z, unit) tcp" where
  "TCPPort_SetTimeOut uSecond =
     thn (setp (timeout_update (\<lambda>_. uSecond)))
       (bnd (getp socketID)
         (\<lambda>fd. if fd > 0 then outer (emit (EvSockTimeout fd uSecond)) else ret ()))"

definition TCPPort_Close :: "('z, unit) tcp" where
  "TCPPort_Close =
     thn touch
       (bnd (getp socketID)
         (\<lambda>fd. if fd > 0 then
                 thn (outer (emit (EvShutdown fd)))
                   (thn (outer (emit (EvClose fd)))
                     (setp (\<lambda>p. p\<lparr>socketID := -1, bConnected := False\<rparr>)))
               else ret ()))"

text \<open>One \<open>connect\<close> on the current socket; \<open>True\<close> on success.\<close>

definition try_connect :: "('z, bool) tcp" where
  "try_connect =
     bnd (getp (\<lambda>p. p)) (\<lambda>p.
     bnd (outer (syscall (EvConnect (socketID p) (strServerName p) (nPort p)))) (\<lambda>r.
       if r_ret r \<noteq> -1 then
         thn (setp (\<lambda>p. p\<lparr>bConnected := True, nNoRoute := 0\<rparr>)) (ret True)
       else
         thn (if r_errno r = EHOSTUNREACH \<or> r_errno r = ENETUNREACH
              then setp (\<lambda>p. p\<lparr>nNoRoute := nNoRoute p + 1\<rparr>) else ret ())
           (thn (outer (emit (EvClose (socketID p))))
             (thn (setp (socketID_update (\<lambda>_. -1))) (ret False)))))"

text \<open>The loop over the addresses: \<open>True\<close> when it was left by \<open>break\<close>.\<close>

fun connect_loop :: "nat \<Rightarrow> ('z, bool) tcp" where
  "connect_loop 0 = ret False"
| "connect_loop (Suc n) =
     bnd (getp socketID) (\<lambda>fd.
     thn (if fd = -1 then
            bnd (outer (syscall EvSocket)) (\<lambda>r.
            thn (setp (socketID_update (\<lambda>_. new_fd r)))
              (bnd (getp timeout) (\<lambda>t. TCPPort_SetTimeOut t)))
          else ret ())
       (bnd (getp socketID) (\<lambda>fd.
          if fd = -1 then connect_loop n
          else bnd try_connect (\<lambda>ok. if ok then ret True else connect_loop n))))"

definition TCPPort_Connect :: "('z, int) tcp" where
  "TCPPort_Connect =
     thn touch
       (bnd (getp (\<lambda>p. p)) (\<lambda>p.
        bnd (outer (syscall (EvGetAddr (strServerName p) (nPort p)))) (\<lambda>r.
          if r_ret r \<noteq> 0 then ret (-1)
          else
            bnd (connect_loop (r_num r)) (\<lambda>found.
              if \<not> found then ret (-1)
              else thn touch (bnd (getp bConnected) (\<lambda>c. if \<not> c then ret (-1) else ret 0))))))"

definition TCPPort_Open :: "string \<Rightarrow> int \<Rightarrow> ('z, int) tcp" where
  "TCPPort_Open szServer nPort' =
     thn (setp (\<lambda>p. p\<lparr>strServerName := szServer\<rparr>))
       (thn (setp (\<lambda>p. p\<lparr>nPort := nPort'\<rparr>))
         (bnd (getp socketID) (\<lambda>fd.
          thn (if fd > 0 then TCPPort_Close else ret ())
            (bnd (outer (syscall EvSocket)) (\<lambda>r.
             thn (setp (socketID_update (\<lambda>_. new_fd r)))
               (if new_fd r < 0 then ret (-1)
                else thn (bnd (getp timeout) (\<lambda>t. TCPPort_SetTimeOut t)) TCPPort_Connect))))))"

definition TCPPort_Open0 :: "('z, int) tcp" where
  "TCPPort_Open0 = bnd (getp (\<lambda>p. p)) (\<lambda>p. TCPPort_Open (strServerName p) (nPort p))"

text \<open>\<open>waitConnect\<close>: \<open>SO_ERROR\<close> of the socket is \<open>r_num\<close> of the \<open>getsockopt\<close> reply.\<close>

definition waitConnect :: "('z, int) tcp" where
  "waitConnect =
     bnd (getp socketID) (\<lambda>fd.
     bnd (outer (syscall (EvSelect fd))) (\<lambda>r.
       if r_ret r = -1 then ret (-1)
       else bnd (outer (syscall (EvSockError fd))) (\<lambda>r.
              if r_ret r < 0 then ret (-1)
              else if r_num r \<noteq> 0 then ret (-1)
              else ret 0)))"

definition TCPPort_Read :: "nat \<Rightarrow> ('z, byte list) tcp" where
  "TCPPort_Read len =
     bnd (getp (\<lambda>p. p)) (\<lambda>p.
       if \<not> bConnected p then throw ChannelException0
       else
         bnd (outer (syscall (EvRecv (socketID p) len))) (\<lambda>r.
           if r_ret r < 0 then
             (if r_errno r = EAGAIN then ret [] else throw (ChannelException1 (r_errno r)))
           else
             let data = take len (r_buf r) in
             thn (if data = [] then TCPPort_Close else ret ())
               (thn touch (ret data))))"

definition TCPPort_Write :: "byte list \<Rightarrow> ('z, int) tcp" where
  "TCPPort_Write buf =
     bnd (getp (\<lambda>p. p)) (\<lambda>p.
       if \<not> bConnected p then throw ChannelException0
       else
         thn touch
           (bnd (outer (syscall (EvSend (socketID p) buf))) (\<lambda>r.
             if r_ret r < 0 then throw (ChannelException1 (r_errno r))
             else thn touch (ret (min (r_ret r) (int (length buf)))))))"

definition TCPPort_Bind :: "int \<Rightarrow> tcpport \<Rightarrow> tcpport" where
  "TCPPort_Bind s p = p\<lparr>socketID := s, bConnected := (s \<noteq> -1)\<rparr>"

definition SetRemoteHost :: "string \<Rightarrow> tcpport \<Rightarrow> tcpport" where
  "SetRemoteHost szHost p = p\<lparr>strServerName := szHost\<rparr>"

definition SetRemotePort :: "int \<Rightarrow> tcpport \<Rightarrow> tcpport" where
  "SetRemotePort n p = p\<lparr>nPort := n\<rparr>"

definition IsUnReachable :: "tcpport \<Rightarrow> bool" where
  "IsUnReachable p = (nNoRoute p > 0)"

text \<open>\<open>Lock\<close> and \<open>Unlock\<close> do nothing.\<close>

definition tcp_channel :: "('z world_scheme \<times> tcpport) channel" where
  "tcp_channel =
     \<lparr>ch_Open = TCPPort_Open0, ch_Read = TCPPort_Read, ch_Write = TCPPort_Write,
      ch_Lock = ret (), ch_Unlock = ret (), ch_SetTimeOut = TCPPort_SetTimeOut,
      ch_IsOpen = (\<lambda>s. bConnected (snd s)), ch_left = (\<lambda>s. left (fst s))\<rparr>"

section \<open>The channel contract\<close>

text \<open>Every method only consumes environment behaviour.\<close>

lemma moves_tcp_basic [hoare_rules]:
  "moves obj_le (getp f)" "moves obj_le (setp g)" "moves obj_le touch"
  by (auto simp: moves_def obj_le_def getp_def setp_def touch_def gets_def modify_def split: prod.splits)

lemma moves_tcp_SetTimeOut [hoare_rules]: "moves obj_le (TCPPort_SetTimeOut t)"
  unfolding TCPPort_SetTimeOut_def by (intro preorder_obj_le hoare_rules)

lemma moves_tcp_Close [hoare_rules]: "moves obj_le TCPPort_Close"
  unfolding TCPPort_Close_def by (intro preorder_obj_le hoare_rules)

lemma moves_tcp_try_connect [hoare_rules]: "moves obj_le try_connect"
  unfolding try_connect_def by (intro preorder_obj_le hoare_rules)

lemma moves_tcp_connect_loop [hoare_rules]: "moves obj_le (connect_loop n)"
  by (induction n) (auto intro!: preorder_obj_le hoare_rules)

lemma moves_tcp_Connect [hoare_rules]: "moves obj_le TCPPort_Connect"
  unfolding TCPPort_Connect_def by (intro preorder_obj_le hoare_rules)

lemma moves_tcp_Open [hoare_rules]: "moves obj_le (TCPPort_Open h n)"
  unfolding TCPPort_Open_def by (intro preorder_obj_le hoare_rules)

lemma moves_tcp_Open0 [hoare_rules]: "moves obj_le TCPPort_Open0"
  unfolding TCPPort_Open0_def by (intro preorder_obj_le hoare_rules)

lemma moves_tcp_Read [hoare_rules]: "moves obj_le (TCPPort_Read n)"
  unfolding TCPPort_Read_def Let_def by (intro preorder_obj_le hoare_rules)

lemma moves_tcp_Write [hoare_rules]: "moves obj_le (TCPPort_Write bs)"
  unfolding TCPPort_Write_def by (intro preorder_obj_le hoare_rules)

lemmas tcp_defs = getp_def setp_def touch_def syscall_def emit_def

lemma getp_bnd [prog_simps]: "bnd (getp g) f s = f (g (snd s)) s"
  by (simp add: getp_def bnd_def gets_def split: prod.splits)

lemma Read_left: "TCPPort_Read n s = (Val bs, s') \<Longrightarrow> left (fst s') < left (fst s)"
  unfolding TCPPort_Read_def getp_bnd Let_def
  by (auto simp: throw_def split: if_splits elim!: bnd_syscall_left intro!: preorder_obj_le hoare_rules)

lemma eats_Open: "eats (\<lambda>s. left (fst s)) (TCPPort_Open h n)"
  unfolding TCPPort_Open_def
  by (intro eats_thn(2) eats_bnd2 eats_bnd1 [OF eats_outer_syscall] moves_obj_left preorder_obj_le hoare_rules)

lemma no_undef_tcp [safe_rules]: "no_undef (getp g)" "no_undef (setp h)" "no_undef touch"
  unfolding getp_def setp_def touch_def by (intro safe_rules)+

lemma no_undef_SetTimeOut [safe_rules]: "no_undef (TCPPort_SetTimeOut t)"
  unfolding TCPPort_SetTimeOut_def by (intro safe_rules)

lemma no_undef_Close [safe_rules]: "no_undef TCPPort_Close"
  unfolding TCPPort_Close_def by (intro safe_rules)

lemma no_undef_connect_loop [safe_rules]: "no_undef (connect_loop n)"
  by (induction n) (auto simp: try_connect_def intro!: safe_rules)

lemma no_undef_Connect [safe_rules]: "no_undef TCPPort_Connect"
  unfolding TCPPort_Connect_def by (intro safe_rules)

lemma no_undef_Open [safe_rules]: "no_undef (TCPPort_Open h n)"
  unfolding TCPPort_Open_def by (intro safe_rules)

lemma no_undef_Open0 [safe_rules]: "no_undef TCPPort_Open0"
  unfolding TCPPort_Open0_def by (intro safe_rules)

lemma no_undef_Read [safe_rules]: "no_undef (TCPPort_Read n)"
  unfolding TCPPort_Read_def Let_def by (intro safe_rules)

lemma no_undef_Write [safe_rules]: "no_undef (TCPPort_Write bs)"
  unfolding TCPPort_Write_def by (intro safe_rules)

lemma Read_len: "TCPPort_Read n s = (Val bs, s') \<Longrightarrow> length bs \<le> n"
  by (auto simp: TCPPort_Read_def bnd_eq_Val thn_def Let_def ret_def throw_def split: if_splits)

interpretation tcp: channel "tcp_channel :: ('z world_scheme \<times> tcpport) channel"
proof
  fix n :: nat and s s' :: "'z world_scheme \<times> tcpport" and bs :: "byte list"
  assume "ch_Read tcp_channel n s = (Val bs, s')"
  then show "length bs \<le> n" by (simp add: tcp_channel_def Read_len)
next
  fix n :: nat and s s' :: "'z world_scheme \<times> tcpport" and bs :: "byte list"
  assume "ch_Read tcp_channel n s = (Val bs, s')"
  then show "ch_left tcp_channel s' < ch_left tcp_channel s"
    using Read_left [of n s bs s'] by (simp add: tcp_channel_def split: prod.splits)
next
  fix n :: nat
  show "no_undef (ch_Read (tcp_channel :: ('z world_scheme \<times> tcpport) channel) n)"
    by (simp add: tcp_channel_def safe_rules)
next
  fix bs
  show "moves (\<lambda>s s' :: 'z world_scheme \<times> tcpport. ch_left tcp_channel s' \<le> ch_left tcp_channel s) (ch_Write tcp_channel bs)"
    using moves_tcp_Write [of bs] by (auto simp: moves_def tcp_channel_def obj_le_def quiet_def split: prod.splits)
next
  fix t
  show "moves (\<lambda>s s' :: 'z world_scheme \<times> tcpport. ch_left tcp_channel s' \<le> ch_left tcp_channel s) (ch_SetTimeOut tcp_channel t)"
    using moves_tcp_SetTimeOut [of t] by (auto simp: moves_def tcp_channel_def obj_le_def quiet_def split: prod.splits)
next
  fix t and s :: "'z world_scheme \<times> tcpport"
  show "\<exists>s'. ch_SetTimeOut tcp_channel t s = (Val (), s')"
    by (auto simp: tcp_channel_def TCPPort_SetTimeOut_def run_defs tcp_defs split: prod.splits)
qed

section \<open>Reception over TCP\<close>

definition delivers :: "reply \<Rightarrow> byte \<Rightarrow> bool" where
  "delivers r b = (0 \<le> r_ret r \<and> take 1 (r_buf r) = [b])"

lemma tcp_feeds:
  "list_all2 delivers rs bs \<Longrightarrow> bConnected p \<Longrightarrow> script w = rs @ rest \<Longrightarrow>
   \<exists>w' p'. feeds tcp_channel (w, p) bs (w', p') \<and> script w' = rest \<and> bConnected p'"
proof (induction rs bs arbitrary: w p rule: list_all2_induct)
  case Nil
  then show ?case by auto
next
  case (Cons r rs b bs)
  define w1 where "w1 = w\<lparr>script := rs @ rest, trace := trace w @ [EvRecv (socketID p) 1], now := now w + int (r_dt r),
      pending := pending w @ r_inf r\<rparr>"
  define p1 where "p1 = p\<lparr>tmLastAction := gettimeofday w1\<rparr>"
  have "ch_Read tcp_channel 1 (w, p) = (Val [b], (w1, p1))"
    using Cons.hyps(1) Cons.prems
    by (simp add: tcp_channel_def TCPPort_Read_def delivers_def run_defs tcp_defs Let_def w1_def p1_def)
  moreover obtain w' p' where "feeds tcp_channel (w1, p1) bs (w', p')" "script w' = rest" "bConnected p'"
    using Cons.IH [of p1 w1] Cons.prems by (auto simp: w1_def p1_def)
  ultimately show ?case by (intro exI [of _ w'] exI [of _ p']) auto
qed

text \<open>
  C9: on a connected TCP port that delivers any bytes without a start token followed by a valid frame (at
  most 4056 bytes, no proper prefix of which already passes the check), \<open>ReceiveFrameFrom\<close> returns
  normally with exactly that frame and leaves the rest of the stream unread.
\<close>

theorem tcp_receives_frame:
  assumes "bConnected p" "script w = rs @ rest" "list_all2 delivers rs (junk @ f)"
    and "SOH \<notin> set junk" "isFrameCRCOK f" "hd f = SOH" "\<forall>n < length f. \<not> isFrameCRCOK (take n f)" "length f \<le> 4056"
  shows "\<exists>w' p'. ReceiveFrameFrom tcp_channel ((w, p), c) = (Val (), ((w', p'), f)) \<and> script w' = rest"
proof -
  have "f \<noteq> []" using assms(5) by auto
  then have f: "f = SOH # tl f" using assms(6) by (metis list.collapse)
  obtain w' p' where "feeds tcp_channel (w, p) (junk @ f) (w', p')" "script w' = rest"
    using tcp_feeds [OF assms(3,1,2)] by auto
  with tcp.ReceiveFrameFrom_feeds [OF this(1) assms(4,5) f assms(7,8)] show ?thesis by blast
qed

definition tcp1 :: tcpport where
  "tcp1 = TCPPort0\<lparr>socketID := 3, bConnected := True\<rparr>"

definition byte_reply :: "byte \<Rightarrow> reply" where
  "byte_reply b = (reply0 1)\<lparr>r_buf := [b]\<rparr>"

lemma delivers_byte_reply: "list_all2 delivers (map byte_reply bs) bs"
  by (induction bs) (auto simp: delivers_def byte_reply_def reply0_def)

theorem tcp_receives_frame_witness:
  "\<exists>w' p'. ReceiveFrameFrom tcp_channel
       ((world0 (map byte_reply ([0x15, 0x15] @ BuildPacket [0x63, 0x6b] 1)), tcp1), []) =
     (Val (), ((w', p'), BuildPacket [0x63, 0x6b] 1)) \<and> script w' = []"
proof (rule tcp_receives_frame [OF _ _ delivers_byte_reply])
  show "bConnected tcp1" by (simp add: tcp1_def)
  show "script (world0 (map byte_reply ([0x15, 0x15] @ BuildPacket [0x63, 0x6b] 1))) =
      map byte_reply ([0x15, 0x15] @ BuildPacket [0x63, 0x6b] 1) @ []"
    by (simp add: world0_def)
  show "SOH \<notin> set [0x15, 0x15]" by (simp add: SOH_def)
  show "isFrameCRCOK (BuildPacket [0x63, 0x6b] 1)" by (simp add: BuildPacket_accepted_iff)
  show "hd (BuildPacket [0x63, 0x6b] 1) = SOH" by (simp add: BuildPacket_eq)
  show "\<forall>n < length (BuildPacket [0x63, 0x6b] 1). \<not> isFrameCRCOK (take n (BuildPacket [0x63, 0x6b] 1))"
    by (auto dest!: isFrameCRCOK_length)
  show "length (BuildPacket [0x63, 0x6b] 1) \<le> 4056" by simp
qed

section \<open>Connection state\<close>

definition tcp_ok :: "tcpport \<Rightarrow> bool" where
  "tcp_ok p = ((0 < socketID p \<or> socketID p = -1) \<and> (bConnected p \<longrightarrow> 0 < socketID p))"

definition tcp_inv :: "'z world_scheme \<times> tcpport \<Rightarrow> bool" where
  "tcp_inv s = tcp_ok (snd s)"

lemma moves_inv_outer [hoare_rules]: "moves (preserves tcp_inv) (outer m)"
  by (auto simp: moves_def preserves_def tcp_inv_def outer_def split: prod.splits)

lemma moves_inv_touch [hoare_rules]: "moves (preserves tcp_inv) touch"
  by (auto simp: moves_def preserves_def tcp_inv_def tcp_ok_def touch_def modify_def split: prod.splits)

lemma moves_inv_getp [hoare_rules]: "moves (preserves tcp_inv) (getp f)"
  by (auto simp: moves_def preserves_def getp_def gets_def)

lemma moves_inv_setp: "(\<And>p. tcp_ok p \<Longrightarrow> tcp_ok (f p)) \<Longrightarrow> moves (preserves tcp_inv) (setp f)"
  by (auto simp: moves_def preserves_def tcp_inv_def setp_def modify_def split: prod.splits)

lemmas inv_intros = preorder_preserves moves_inv_setp hoare_rules

lemma moves_inv_SetTimeOut [hoare_rules]: "moves (preserves tcp_inv) (TCPPort_SetTimeOut t)"
  unfolding TCPPort_SetTimeOut_def by (intro inv_intros) (auto simp: tcp_ok_def)

lemma moves_inv_Close [hoare_rules]: "moves (preserves tcp_inv) TCPPort_Close"
  unfolding TCPPort_Close_def by (intro inv_intros) (auto simp: tcp_ok_def)

lemma moves_inv_Read [hoare_rules]: "moves (preserves tcp_inv) (TCPPort_Read n)"
  unfolding TCPPort_Read_def Let_def by (intro preorder_preserves hoare_rules)

lemma moves_inv_Write [hoare_rules]: "moves (preserves tcp_inv) (TCPPort_Write bs)"
  unfolding TCPPort_Write_def by (intro preorder_preserves hoare_rules)

text \<open>\<open>Connect\<close> is safe on a port that is not connected, which is how the agent calls it.\<close>

lemma new_fd_cases: "new_fd r = -1 \<or> 0 < new_fd r"
  by (simp add: new_fd_def)

definition idle :: "tcpport \<Rightarrow> bool" where
  "idle p = ((0 < socketID p \<or> socketID p = -1) \<and> \<not> bConnected p)"

definition found_post :: "bool \<Rightarrow> 'z world_scheme \<times> tcpport \<Rightarrow> bool" where
  "found_post found s = (if found then bConnected (snd s) else idle (snd s))"

definition connect_post :: "int \<Rightarrow> 'z world_scheme \<times> tcpport \<Rightarrow> bool" where
  "connect_post v s = (if v = 0 then bConnected (snd s) else v = -1 \<and> idle (snd s))"

lemma post_simps [simp]:
  "found_post True s = bConnected (snd s)" "found_post False s = idle (snd s)"
  "connect_post 0 s = bConnected (snd s)" "connect_post (-1) s = idle (snd s)"
  by (simp_all add: found_post_def connect_post_def)

lemma found_post_eta [simp]: "found_post True = (\<lambda>s. bConnected (snd s))" "found_post False = (\<lambda>s. idle (snd s))"
  by auto

lemma idle_ok: "idle p \<Longrightarrow> tcp_ok p"
  by (simp add: idle_def tcp_ok_def)

lemma tcp_ok_idle: "tcp_ok p \<Longrightarrow> \<not> bConnected p \<longleftrightarrow> idle p"
  by (simp add: idle_def tcp_ok_def)

lemma track_outer:
  "(\<And>p. P p \<Longrightarrow> Q p) \<Longrightarrow> track tcp_inv (\<lambda>s. P (snd s)) (outer m) (\<lambda>_ s. Q (snd s))"
  by (rule trackI) (auto simp: outer_def tcp_inv_def split: prod.splits)

lemma track_setp:
  "(\<And>p. tcp_ok p \<Longrightarrow> P p \<Longrightarrow> tcp_ok (f p) \<and> Q (f p)) \<Longrightarrow>
     track tcp_inv (\<lambda>s. P (snd s)) (setp f) (\<lambda>_ s. Q (snd s))"
  by (rule trackI) (auto simp: setp_def modify_def tcp_inv_def split: prod.splits)

lemma track_getp:
  "(\<And>p. tcp_ok p \<Longrightarrow> P p \<Longrightarrow> Q (g p) p) \<Longrightarrow> track tcp_inv (\<lambda>s. P (snd s)) (getp g) (\<lambda>v s. Q v (snd s))"
  by (rule trackI) (auto simp: getp_def gets_def tcp_inv_def split: prod.splits)

lemma track_touch: "(\<And>p t. P p \<Longrightarrow> Q (p\<lparr>tmLastAction := t\<rparr>)) \<Longrightarrow> track tcp_inv (\<lambda>s. P (snd s)) touch (\<lambda>_ s. Q (snd s))"
  by (rule trackI) (auto simp: touch_def modify_def tcp_inv_def tcp_ok_def split: prod.splits)

lemma track_SetTimeOut:
  "(\<And>p. P p \<Longrightarrow> Q (p\<lparr>timeout := t\<rparr>)) \<Longrightarrow>
     track tcp_inv (\<lambda>s. P (snd s)) (TCPPort_SetTimeOut t) (\<lambda>_ s. Q (snd s))"
  by (rule trackI) (auto simp: TCPPort_SetTimeOut_def run_defs tcp_defs tcp_inv_def tcp_ok_def split: prod.splits if_splits)

lemma track_try_connect:
  "track tcp_inv (\<lambda>s. idle (snd s) \<and> socketID (snd s) \<noteq> -1) try_connect
     found_post"
  by (rule trackI)
    (auto simp: try_connect_def run_defs tcp_defs found_post_def idle_def tcp_inv_def tcp_ok_def split: prod.splits if_splits list.splits)

lemma track_new_socket:
  "track tcp_inv (\<lambda>s. idle (snd s))
     (if fd = -1 then
        bnd (outer (syscall EvSocket)) (\<lambda>r.
        thn (setp (socketID_update (\<lambda>_. new_fd r)))
          (bnd (getp timeout) (\<lambda>t. TCPPort_SetTimeOut t)))
      else ret ()) (\<lambda>_ s. idle (snd s))"
proof (rule track_if)
  have fd: "track tcp_inv (\<lambda>s. idle (snd s)) (setp (socketID_update (\<lambda>_. new_fd r))) (\<lambda>_ s. idle (snd s))" for r
    using new_fd_cases [of r] by (intro track_setp) (auto simp: idle_def tcp_ok_def)
  have tm: "track tcp_inv (\<lambda>s. idle (snd s)) (bnd (getp timeout) TCPPort_SetTimeOut) (\<lambda>_ s. idle (snd s))"
    by (rule track_bnd [where R = "\<lambda>_ s. idle (snd s)"], rule track_getp, simp, rule track_SetTimeOut)
      (auto simp: idle_def)
  show "track tcp_inv (\<lambda>s. idle (snd s))
     (bnd (outer (syscall EvSocket)) (\<lambda>r. thn (setp (socketID_update (\<lambda>_. new_fd r))) (bnd (getp timeout) TCPPort_SetTimeOut)))
     (\<lambda>_ s. idle (snd s))"
    by (rule track_bnd [where R = "\<lambda>_ s. idle (snd s)"], rule track_outer, simp, rule track_thn [OF fd], rule tm)
qed (simp add: track_ret)

lemma track_connect_loop:
  "track (tcp_inv :: 'z world_scheme \<times> tcpport \<Rightarrow> bool) (\<lambda>s. idle (snd s)) (connect_loop n) found_post"
proof (induction n)
  case 0
  show ?case by (simp add: track_ret)
next
  case (Suc n)
  show ?case
    unfolding connect_loop.simps
  proof (rule track_bnd [where R = "\<lambda>_ s. idle (snd s)"], rule track_getp, simp,
      rule track_thn [OF track_new_socket], rule track_bnd [where R = "\<lambda>fd s. idle (snd s) \<and> fd = socketID (snd s)"],
      rule track_getp, simp, rule track_if)
    fix fd :: int
    assume "fd = -1"
    show "track (tcp_inv :: 'z world_scheme \<times> tcpport \<Rightarrow> bool) (\<lambda>s. idle (snd s) \<and> fd = socketID (snd s)) (connect_loop n)
        found_post"
      by (rule track_weaken [OF Suc]) auto
  next
    fix fd :: int
    assume "fd \<noteq> -1"
    then have "track (tcp_inv :: 'z world_scheme \<times> tcpport \<Rightarrow> bool) (\<lambda>s. idle (snd s) \<and> fd = socketID (snd s)) try_connect
        found_post"
      by (intro track_weaken [OF track_try_connect]) auto
    then show "track (tcp_inv :: 'z world_scheme \<times> tcpport \<Rightarrow> bool) (\<lambda>s. idle (snd s) \<and> fd = socketID (snd s))
        (bnd try_connect (\<lambda>ok. if ok then ret True else connect_loop n))
        found_post"
      by (rule track_bnd) (use Suc in \<open>auto intro: track_ret\<close>)
  qed
qed

lemma track_Connect:
  "track tcp_inv (\<lambda>s. idle (snd s)) TCPPort_Connect
     connect_post"
  unfolding TCPPort_Connect_def
proof (rule track_thn [where R = "\<lambda>_ s. idle (snd s)"], rule track_touch, simp add: idle_def,
    rule track_bnd [where R = "\<lambda>_ s. idle (snd s)"], rule track_getp, simp,
    rule track_bnd [where R = "\<lambda>_ s. idle (snd s)"], rule track_outer, simp, rule track_if)
  fix r :: reply
  have "track tcp_inv (\<lambda>s. bConnected (snd s)) (thn touch (bnd (getp bConnected) (\<lambda>c. if \<not> c then ret (-1) else ret 0)))
      connect_post"
    by (rule track_thn [where R = "\<lambda>_ s. bConnected (snd s)"], rule track_touch, simp,
        rule track_bnd [where R = "\<lambda>c s. c \<and> bConnected (snd s)"], rule track_getp, simp)
      (auto intro!: track_if track_ret)
  then show "track tcp_inv (\<lambda>s. idle (snd s))
     (bnd (connect_loop (r_num r)) (\<lambda>found. if \<not> found then ret (-1)
        else thn touch (bnd (getp bConnected) (\<lambda>c. if \<not> c then ret (-1) else ret 0))))
     connect_post"
    by (intro track_bnd [OF track_connect_loop] track_if) (auto intro: track_ret)
qed (auto intro: track_ret)

lemma track_Open:
  "track tcp_inv (\<lambda>_. True) (TCPPort_Open h n) connect_post"
  unfolding TCPPort_Open_def
proof (rule track_thn [where R = "\<lambda>_ s. True"], rule track_setp, simp add: tcp_ok_def,
    rule track_thn [where R = "\<lambda>_ s. True"], rule track_setp, simp add: tcp_ok_def,
    rule track_bnd [where R = "\<lambda>fd s. fd = socketID (snd s)"], rule track_getp, simp,
    rule track_thn [where R = "\<lambda>_ s. idle (snd s)"])
  fix fd :: int
  show "track tcp_inv (\<lambda>s. fd = socketID (snd s)) (if fd > 0 then TCPPort_Close else ret ()) (\<lambda>_ s. idle (snd s))"
    by (rule trackI)
      (auto simp: TCPPort_Close_def run_defs tcp_defs idle_def tcp_inv_def tcp_ok_def split: prod.splits if_splits)
next
  fix fd x
  show "track tcp_inv (\<lambda>s. idle (snd s))
     (bnd (outer (syscall EvSocket)) (\<lambda>r. thn (setp (socketID_update (\<lambda>_. new_fd r)))
       (if new_fd r < 0 then ret (-1) else thn (bnd (getp timeout) TCPPort_SetTimeOut) TCPPort_Connect)))
     connect_post"
  proof (rule track_bnd [where R = "\<lambda>_ s. idle (snd s)"], rule track_outer, simp,
      rule track_thn [where R = "\<lambda>_ s. idle (snd s)"], rule track_setp)
    fix r p
    assume "tcp_ok p" "idle p"
    then show "tcp_ok (p\<lparr>socketID := new_fd r\<rparr>) \<and> idle (p\<lparr>socketID := new_fd r\<rparr>)"
      using new_fd_cases [of r] by (auto simp: idle_def tcp_ok_def)
  next
    fix r :: reply and u
    show "track tcp_inv (\<lambda>s. idle (snd s))
       (if new_fd r < 0 then ret (-1) else thn (bnd (getp timeout) TCPPort_SetTimeOut) TCPPort_Connect)
       connect_post"
      by (auto intro!: track_if track_ret track_thn [OF _ track_Connect]
          track_bnd [where R = "\<lambda>_ s. idle (snd s)"] track_getp track_SetTimeOut simp: idle_def)
  qed
qed

lemma moves_inv_Open [hoare_rules]: "moves (preserves tcp_inv) (TCPPort_Open h n)"
  unfolding track_moves by (rule track_weaken [OF track_Open]) auto

lemma moves_inv_Open0 [hoare_rules]: "moves (preserves tcp_inv) TCPPort_Open0"
  unfolding TCPPort_Open0_def by (intro preorder_preserves hoare_rules)



end
