(* ===== verification/SerialPort.thy ===== *)
theory SerialPort
  imports TCPPort
begin

text \<open>
  \<open>class SerialPort\<close> (SerialPort.h, SerialPort.cpp): the link to the monitoring post.  The device is opened
  non-blocking, so \<open>read\<close> returns what has arrived; a call on the closed handle fails.
\<close>

record serialport =
  handle :: int
  sp_timeout :: int
  strDevName :: string

type_synonym ('z, 'a) ser = "('z world_scheme \<times> serialport, 'a) prog"

definition SerialPort0 :: serialport where
  "SerialPort0 = \<lparr>handle = -1, sp_timeout = 20000, strDevName = ''''\<rparr>"

definition gets_port :: "(serialport \<Rightarrow> 'a) \<Rightarrow> ('z, 'a) ser" where
  "gets_port f = gets (\<lambda>(w, p). f p)"

definition sets_port :: "(serialport \<Rightarrow> serialport) \<Rightarrow> ('z, unit) ser" where
  "sets_port f = modify (\<lambda>(w, p). (w, f p))"

section \<open>Terminal settings\<close>

record termios =
  c_iflag :: u32
  c_oflag :: u32
  c_cflag :: u32
  c_lflag :: u32
  c_VMIN :: byte
  c_VTIME :: byte

definition CSIZE :: u32 where "CSIZE = 0x30"
definition CS8 :: u32 where "CS8 = 0x30"
definition PARENB :: u32 where "PARENB = 0x100"
definition B19200 :: u32 where "B19200 = 0xe"
definition CLOCAL :: u32 where "CLOCAL = 0x800"
definition CREAD :: u32 where "CREAD = 0x80"
definition ICANON :: u32 where "ICANON = 0x2"
definition ECHO :: u32 where "ECHO = 0x8"
definition ECHOE :: u32 where "ECHOE = 0x10"
definition ISIG :: u32 where "ISIG = 0x1"
definition IEXTEN :: u32 where "IEXTEN = 0x8000"
definition IGNBRK :: u32 where "IGNBRK = 0x1"
definition BRKINT :: u32 where "BRKINT = 0x2"
definition PARMRK :: u32 where "PARMRK = 0x8"
definition ISTRIP :: u32 where "ISTRIP = 0x20"
definition INLCR :: u32 where "INLCR = 0x40"
definition IGNCR :: u32 where "IGNCR = 0x80"
definition ICRNL :: u32 where "ICRNL = 0x100"
definition IXON :: u32 where "IXON = 0x400"
definition OPOST :: u32 where "OPOST = 0x1"

lemmas termios_bits = CSIZE_def CS8_def PARENB_def B19200_def CLOCAL_def CREAD_def ICANON_def ECHO_def ECHOE_def
  ISIG_def IEXTEN_def IGNBRK_def BRKINT_def PARMRK_def ISTRIP_def INLCR_def IGNCR_def ICRNL_def IXON_def OPOST_def

definition SetCom_termios :: "termios \<Rightarrow> termios" where
  "SetCom_termios t0 =
     (let t = t0\<lparr>c_cflag := 0\<rparr>;
          t = t\<lparr>c_cflag := c_cflag t AND NOT (CSIZE OR PARENB)\<rparr>;
          t = t\<lparr>c_cflag := c_cflag t OR (B19200 OR CS8 OR CLOCAL OR CREAD)\<rparr>;
          t = t\<lparr>c_lflag := c_lflag t AND NOT (ICANON OR ECHO OR ECHOE OR ISIG OR IEXTEN)\<rparr>;
          t = t\<lparr>c_iflag := c_iflag t AND NOT (IGNBRK OR BRKINT OR PARMRK OR ISTRIP OR INLCR OR IGNCR OR ICRNL OR IXON)\<rparr>;
          t = t\<lparr>c_oflag := c_oflag t AND NOT OPOST\<rparr>
      in t\<lparr>c_VMIN := 0, c_VTIME := 0\<rparr>)"

section \<open>Methods\<close>

definition SetCom :: "('z, unit) ser" where
  "SetCom =
     bnd (gets_port handle) (\<lambda>h.
       if h < 0 then ret ()
       else thn (outer (emit (EvFlush h))) (outer (emit (EvSetCom h))))"

definition SerialPort_Close :: "('z, unit) ser" where
  "SerialPort_Close =
     bnd (gets_port handle) (\<lambda>h.
       if h > 0 then
         thn (outer (emit (EvFlush h)))
           (thn (outer (emit (EvClose h))) (sets_port (handle_update (\<lambda>_. -1))))
       else ret ())"

definition SerialPort_Open :: "string \<Rightarrow> ('z, int) ser" where
  "SerialPort_Open szDev =
     thn SerialPort_Close
       (thn (sets_port (strDevName_update (\<lambda>_. szDev)))
         (bnd (outer (syscall (EvOpen szDev))) (\<lambda>r.
          thn (sets_port (handle_update (\<lambda>_. new_fd r)))
            (if new_fd r < 0 then ret (-1) else thn SetCom (ret 0)))))"

definition SerialPort_Open0 :: "('z, int) ser" where
  "SerialPort_Open0 = bnd (gets_port strDevName) SerialPort_Open"

definition reopen :: "('z, unit) ser" where
  "reopen = bnd (gets_port handle) (\<lambda>h. if h = -1 then bnd SerialPort_Open0 (\<lambda>_. ret ()) else ret ())"

definition SerialPort_Lock :: "('z, unit) ser" where
  "SerialPort_Lock = bnd (gets_port handle) (\<lambda>h. outer (emit (EvLock h)))"

definition SerialPort_Unlock :: "('z, unit) ser" where
  "SerialPort_Unlock = bnd (gets_port handle) (\<lambda>h. outer (emit (EvUnlock h)))"

text \<open>\<open>read(handle, buf, len)\<close>: \<open>None\<close> for the result -1.\<close>

definition sys_read :: "nat \<Rightarrow> ('z, byte list option) ser" where
  "sys_read len =
     bnd (gets_port handle) (\<lambda>h.
     bnd (outer (syscall (EvRead h len))) (\<lambda>r.
       ret (if h < 0 \<or> r_ret r < 0 then None else Some (take len (r_buf r)))))"

text \<open>The \<open>do ... while (try_again)\<close> loop; its \<open>continue\<close> goes to the loop test.\<close>

function read_try :: "nat \<Rightarrow> nat \<Rightarrow> ('z, byte list) ser" where
  "read_try len try_again =
     bnd (sys_read len) (\<lambda>n.
       case n of
         None \<Rightarrow> thn SerialPort_Close (ret [])
       | Some bs \<Rightarrow>
           if bs \<noteq> [] then ret bs
           else if try_again \<noteq> 0 then
             bnd (gets_port sp_timeout) (\<lambda>t.
             thn (outer (usleep t))
               (if try_again - 1 \<noteq> 0 then read_try len (try_again - 1) else ret []))
           else ret [])"
  by pat_completeness auto
termination
  by (relation "measure snd") auto

declare read_try.simps [simp del]

definition SerialPort_Read :: "nat \<Rightarrow> ('z, byte list) ser" where
  "SerialPort_Read len = (if len = 0 then ret [] else thn reopen (read_try len 2))"

definition SerialPort_Write :: "byte list \<Rightarrow> ('z, int) ser" where
  "SerialPort_Write buf =
     (if buf = [] then ret 0
      else
        thn reopen
          (bnd (gets_port handle) (\<lambda>h.
           bnd (outer (syscall (EvWrite h buf))) (\<lambda>r.
           let n = (if h < 0 \<or> r_ret r < 0 then -1 else min (r_ret r) (int (length buf))) in
           thn (outer (emit (EvDrain h)))
             (if n > 0 then ret n
              else if n = -1 then thn SerialPort_Close (ret 0)
              else ret 0)))))"

definition SerialPort_IsOpen :: "serialport \<Rightarrow> bool" where
  "SerialPort_IsOpen p = (handle p = -1)"

definition SerialPort_SetTimeOut :: "int \<Rightarrow> ('z, unit) ser" where
  "SerialPort_SetTimeOut usec = sets_port (sp_timeout_update (\<lambda>_. usec))"

definition serial_channel :: "('z world_scheme \<times> serialport) channel" where
  "serial_channel =
     \<lparr>ch_Open = SerialPort_Open0, ch_Read = SerialPort_Read, ch_Write = SerialPort_Write,
      ch_Lock = SerialPort_Lock, ch_Unlock = SerialPort_Unlock, ch_SetTimeOut = SerialPort_SetTimeOut,
      ch_IsOpen = (\<lambda>s. SerialPort_IsOpen (snd s)), ch_left = (\<lambda>s. left (fst s))\<rparr>"

text \<open>
  Whatever the previous settings, \<open>SetCom\<close> puts the terminal into raw mode: 19200 baud, eight data bits, no
  parity, receiver on, modem lines ignored, no line discipline, and \<open>read\<close> never blocks.
\<close>

lemma SetCom_raw:
  "c_cflag (SetCom_termios t) = (B19200 OR CS8 OR CLOCAL OR CREAD) \<and>
   c_cflag (SetCom_termios t) AND PARENB = 0 \<and> c_cflag (SetCom_termios t) AND CSIZE = CS8 \<and>
   c_lflag (SetCom_termios t) AND (ICANON OR ECHO OR ISIG) = 0 \<and>
   c_iflag (SetCom_termios t) AND (ISTRIP OR INLCR OR IGNCR OR ICRNL OR IXON) = 0 \<and>
   c_oflag (SetCom_termios t) AND OPOST = 0 \<and>
   c_VMIN (SetCom_termios t) = 0 \<and> c_VTIME (SetCom_termios t) = 0"
  by (simp add: SetCom_termios_def Let_def and.assoc termios_bits)

section \<open>The channel contract\<close>

lemma moves_ser_basic [hoare_rules]: "moves obj_le (gets_port f)" "moves obj_le (sets_port g)"
  unfolding gets_port_def sets_port_def by (auto intro!: hoare_rules moves_obj_modify)

lemma moves_ser_SetCom [hoare_rules]: "moves obj_le SetCom"
  unfolding SetCom_def by (intro preorder_obj_le hoare_rules)

lemma moves_ser_Close [hoare_rules]: "moves obj_le SerialPort_Close"
  unfolding SerialPort_Close_def by (intro preorder_obj_le hoare_rules)

lemma moves_ser_Open [hoare_rules]: "moves obj_le (SerialPort_Open d)"
  unfolding SerialPort_Open_def by (intro preorder_obj_le hoare_rules)

lemma moves_ser_Open0 [hoare_rules]: "moves obj_le SerialPort_Open0"
  unfolding SerialPort_Open0_def by (intro preorder_obj_le hoare_rules)

lemma moves_ser_reopen [hoare_rules]: "moves obj_le reopen"
  unfolding reopen_def by (intro preorder_obj_le hoare_rules)

lemma moves_ser_sys_read [hoare_rules]: "moves obj_le (sys_read n)"
  unfolding sys_read_def by (intro preorder_obj_le hoare_rules)

lemma moves_ser_read_try [hoare_rules]: "moves obj_le (read_try n k)"
proof (induction k rule: less_induct)
  case (less k)
  show ?case
  proof (cases "k - 1 = 0")
    case True
    then show ?thesis by (subst read_try.simps) (auto intro!: preorder_obj_le hoare_rules)
  next
    case False
    then have "k - 1 < k" by simp
    from less [OF this] show ?thesis by (subst read_try.simps) (auto intro!: preorder_obj_le hoare_rules)
  qed
qed

lemma moves_ser_Read [hoare_rules]: "moves obj_le (SerialPort_Read n)"
  unfolding SerialPort_Read_def by (intro preorder_obj_le hoare_rules)

lemma moves_ser_Write [hoare_rules]: "moves obj_le (SerialPort_Write bs)"
  unfolding SerialPort_Write_def Let_def by (intro preorder_obj_le hoare_rules)

lemma no_undef_ser [safe_rules]:
  "no_undef (gets_port f)" "no_undef (sets_port g)" "no_undef SetCom" "no_undef SerialPort_Close"
  "no_undef (SerialPort_Open d)" "no_undef SerialPort_Open0" "no_undef reopen" "no_undef (sys_read n)"
  "no_undef (SerialPort_Write bs)" "no_undef SerialPort_Lock" "no_undef SerialPort_Unlock"
  unfolding gets_port_def sets_port_def SetCom_def SerialPort_Close_def SerialPort_Open_def SerialPort_Open0_def
    reopen_def sys_read_def SerialPort_Write_def SerialPort_Lock_def SerialPort_Unlock_def Let_def
  by (intro safe_rules)+

lemma no_undef_read_try [safe_rules]: "no_undef (read_try n k)"
proof (induction k rule: less_induct)
  case (less k)
  show ?case
  proof (cases "k - 1 = 0")
    case True
    then show ?thesis by (subst read_try.simps) (auto intro!: safe_rules)
  next
    case False
    then have "k - 1 < k" by simp
    from less [OF this] show ?thesis by (subst read_try.simps) (auto intro!: safe_rules)
  qed
qed

lemma no_undef_ser_Read [safe_rules]: "no_undef (SerialPort_Read n)"
  unfolding SerialPort_Read_def by (intro safe_rules)

lemma sys_read_Val:
  "sys_read n s = (Val x, s') \<Longrightarrow> left (fst s') < left (fst s) \<and> (\<forall>bs. x = Some bs \<longrightarrow> length bs \<le> n)"
  by (auto simp: sys_read_def gets_port_def run_defs syscall_def left_def split: prod.splits list.splits if_splits)

lemma read_try_left: "read_try n k s = (Val bs, s') \<Longrightarrow> left (fst s') < left (fst s)"
proof (subst (asm) read_try.simps, unfold bnd_eq_Val, elim exE conjE)
  fix x s1
  assume s1: "sys_read n s = (Val x, s1)"
    and cont: "(case x of None \<Rightarrow> thn SerialPort_Close (ret [])
       | Some bs \<Rightarrow> if bs \<noteq> [] then ret bs
           else if k \<noteq> 0 then bnd (gets_port sp_timeout) (\<lambda>t. thn (outer (usleep t))
               (if k - 1 \<noteq> 0 then read_try n (k - 1) else ret [])) else ret []) s1 = (Val bs, s')"
  have "moves obj_le (case x of None \<Rightarrow> thn SerialPort_Close (ret [])
       | Some bs \<Rightarrow> if bs \<noteq> [] then ret bs
           else if k \<noteq> 0 then bnd (gets_port sp_timeout) (\<lambda>t. thn (outer (usleep t))
               (if k - 1 \<noteq> 0 then read_try n (k - 1) else ret [])) else ret [])"
    by (intro preorder_obj_le hoare_rules)
  from movesD [OF this cont] have "left (fst s') \<le> left (fst s1)" by (simp add: obj_le_def quiet_def)
  with sys_read_Val [OF s1] show "left (fst s') < left (fst s)" by simp
qed

lemma read_try_len: "read_try n k s = (Val bs, s') \<Longrightarrow> length bs \<le> n"
proof (induction k arbitrary: s rule: less_induct)
  case (less k)
  from less.prems obtain x s1 where s1: "sys_read n s = (Val x, s1)"
    and cont: "(case x of None \<Rightarrow> thn SerialPort_Close (ret [])
       | Some bs \<Rightarrow> if bs \<noteq> [] then ret bs
           else if k \<noteq> 0 then bnd (gets_port sp_timeout) (\<lambda>t. thn (outer (usleep t))
               (if k - 1 \<noteq> 0 then read_try n (k - 1) else ret [])) else ret []) s1 = (Val bs, s')"
    by (subst (asm) read_try.simps) (auto simp: bnd_eq_Val)
  show ?case
    using cont sys_read_Val [OF s1] less.IH [of "k - 1"]
    by (auto simp: bnd_eq_Val thn_def ret_def split: option.splits if_splits)
qed

lemma ser_Read_left: "SerialPort_Read n s = (Val bs, s') \<Longrightarrow> 0 < n \<Longrightarrow> left (fst s') < left (fst s)"
proof -
  assume "SerialPort_Read n s = (Val bs, s')" "0 < n"
  then obtain s1 where s1: "reopen s = (Val (), s1)" "read_try n 2 s1 = (Val bs, s')"
    by (auto simp: SerialPort_Read_def thn_def bnd_eq_Val)
  have "left (fst s1) \<le> left (fst s)" using movesD [OF moves_ser_reopen s1(1)] by (simp add: obj_le_def quiet_def)
  with read_try_left [OF s1(2)] show ?thesis by simp
qed

lemma ser_Read_len: "SerialPort_Read n s = (Val bs, s') \<Longrightarrow> length bs \<le> n"
  by (auto simp: SerialPort_Read_def thn_def bnd_eq_Val ret_def split: if_splits dest: read_try_len)

interpretation serial: channel "serial_channel :: ('z world_scheme \<times> serialport) channel"
proof
  fix n :: nat and s s' :: "'z world_scheme \<times> serialport" and bs :: "byte list"
  assume "ch_Read serial_channel n s = (Val bs, s')"
  then show "length bs \<le> n" by (simp add: serial_channel_def ser_Read_len)
next
  fix n :: nat and s s' :: "'z world_scheme \<times> serialport" and bs :: "byte list"
  assume "ch_Read serial_channel n s = (Val bs, s')" "0 < n"
  then show "ch_left serial_channel s' < ch_left serial_channel s"
    using ser_Read_left [of n s bs s'] by (simp add: serial_channel_def)
next
  fix n :: nat
  show "no_undef (ch_Read (serial_channel :: ('z world_scheme \<times> serialport) channel) n)"
    by (simp add: serial_channel_def safe_rules)
next
  fix bs
  show "moves (\<lambda>s s' :: 'z world_scheme \<times> serialport. ch_left serial_channel s' \<le> ch_left serial_channel s)
      (ch_Write serial_channel bs)"
    using moves_ser_Write [of bs] by (auto simp: moves_def serial_channel_def obj_le_def quiet_def)
next
  fix t
  show "moves (\<lambda>s s' :: 'z world_scheme \<times> serialport. ch_left serial_channel s' \<le> ch_left serial_channel s)
      (ch_SetTimeOut serial_channel t)"
    by (auto simp: moves_def serial_channel_def SerialPort_SetTimeOut_def sets_port_def modify_def split: prod.splits)
next
  fix t and s :: "'z world_scheme \<times> serialport"
  show "\<exists>s'. ch_SetTimeOut serial_channel t s = (Val (), s')"
    by (auto simp: serial_channel_def SerialPort_SetTimeOut_def sets_port_def modify_def)
qed

section \<open>Behaviour\<close>

lemma ser_feeds:
  "list_all2 delivers rs bs \<Longrightarrow> 0 < handle p \<Longrightarrow> script w = rs @ rest \<Longrightarrow>
   \<exists>w'. feeds serial_channel (w, p) bs (w', p) \<and> script w' = rest"
proof (induction rs bs arbitrary: w rule: list_all2_induct)
  case Nil
  then show ?case by auto
next
  case (Cons r rs b bs)
  define w1 where "w1 = w\<lparr>script := rs @ rest, trace := trace w @ [EvRead (handle p) 1], now := now w + int (r_dt r),
      pending := pending w @ r_inf r\<rparr>"
  have "ch_Read serial_channel 1 (w, p) = (Val [b], (w1, p))"
    using Cons.hyps(1) Cons.prems
    by (simp add: serial_channel_def SerialPort_Read_def reopen_def read_try.simps sys_read_def gets_port_def
        delivers_def run_defs syscall_def w1_def)
  moreover obtain w' where "feeds serial_channel (w1, p) bs (w', p)" "script w' = rest"
    using Cons.IH [of w1] Cons.prems by (auto simp: w1_def)
  ultimately show ?case by (intro exI [of _ w']) auto
qed



text \<open>One round of the polling loop: at most two calls, then a result or one round less.\<close>

lemma sys_read_total:
  assumes "0 < replies (fst s)"
  shows "\<exists>x s'. sys_read n s = (Val x, s') \<and> replies (fst s') = replies (fst s) - 1 \<and> snd s' = snd s"
  using assms by (auto simp: sys_read_def gets_port_def run_defs syscall_def replies_def split: prod.splits list.splits)

lemma usleep_total:
  assumes "0 < replies (fst s)"
  shows "\<exists>s'. outer (usleep t) s = (Val (), s') \<and> replies (fst s') = replies (fst s) - 1 \<and> snd s' = snd s"
  using assms by (auto simp: usleep_def run_defs syscall_def replies_def split: prod.splits list.splits)

lemma Close_total: "\<exists>s'. SerialPort_Close s = (Val (), s')"
  by (auto simp: SerialPort_Close_def gets_port_def sets_port_def run_defs emit_def split: prod.splits)

lemma read_try_total: "2 * k \<le> replies (fst s) \<Longrightarrow> 0 < k \<Longrightarrow> \<exists>bs s'. read_try n k s = (Val bs, s')"
proof (induction k arbitrary: s rule: less_induct)
  case (less k)
  obtain x s1 where s1: "sys_read n s = (Val x, s1)" "replies (fst s1) = replies (fst s) - 1"
    using sys_read_total [of s n] less.prems by auto
  obtain s2 where s2: "outer (usleep (sp_timeout (snd s1))) s1 = (Val (), s2)" "replies (fst s2) = replies (fst s1) - 1"
    using usleep_total [of s1 "sp_timeout (snd s1)"] less.prems s1 by auto
  obtain s3 where s3: "SerialPort_Close s1 = (Val (), s3)" using Close_total by blast
  have rec: "\<exists>bs s'. read_try n (k - 1) s2 = (Val bs, s')" if "k - 1 \<noteq> 0"
    using that less.IH [of "k - 1" s2] less.prems s1(2) s2(2) by auto
  have "gets_port sp_timeout s1 = (Val (sp_timeout (snd s1)), s1)"
    by (simp add: gets_port_def gets_def split: prod.splits)
  with s1 s2 s3 rec less.prems(2) show ?case
    by (subst read_try.simps) (auto simp: bnd_def thn_def ret_def split: option.splits)
qed

lemma reopen_total:
  assumes "0 < replies (fst s)"
  shows "\<exists>s'. reopen s = (Val (), s') \<and> replies (fst s) - 1 \<le> replies (fst s')"
  using assms
  by (auto simp: reopen_def SerialPort_Open0_def SerialPort_Open_def SerialPort_Close_def SetCom_def gets_port_def
      sets_port_def run_defs syscall_def emit_def replies_def split: prod.splits list.splits)

text \<open>
  A serial read always comes back.  With five more replies of the operating system it returns at most the
  requested number of bytes; it never throws and never runs into undefined behaviour.
\<close>

lemma serial_read_returns:
  assumes "5 \<le> replies w"
  shows "\<exists>bs s'. SerialPort_Read n (w, p) = (Val bs, s') \<and> length bs \<le> n"
proof (cases "n = 0")
  case True
  then show ?thesis by (simp add: SerialPort_Read_def ret_def)
next
  case False
  obtain s1 where s1: "reopen (w, p) = (Val (), s1)" "4 \<le> replies (fst s1)"
    using reopen_total [of "(w, p)"] assms by auto
  then obtain bs s' where "read_try n 2 s1 = (Val bs, s')" using read_try_total [of 2 s1 n] by auto
  with s1 False have "SerialPort_Read n (w, p) = (Val bs, s')"
    by (simp add: SerialPort_Read_def thn_def bnd_def)
  with ser_Read_len show ?thesis by blast
qed

lemma serial_read_returns_witness:
  "\<exists>bs s'. SerialPort_Read 1 (world0 (replicate 5 (reply0 0)), SerialPort0) = (Val bs, s') \<and> length bs \<le> 1"
proof -
  have "5 \<le> replies (world0 (replicate 5 (reply0 0)))" by (simp add: replies_def world0_def)
  from serial_read_returns [OF this] show ?thesis .
qed

text \<open>
  \<open>IsOpen\<close> of the serial port answers the opposite of its name: after a successful \<open>Open\<close> it is false, and
  after \<open>Close\<close> it is true.
\<close>

theorem serial_IsOpen_inverted:
  assumes "SerialPort_Open d (w, p) = (Val v, (w', p'))"
  shows "(v = 0 \<longleftrightarrow> \<not> SerialPort_IsOpen p') \<and>
    (0 < handle q \<longrightarrow> SerialPort_IsOpen (snd (snd (SerialPort_Close (w, q)))))"
  using assms
  by (auto simp: SerialPort_Open_def SerialPort_Close_def SetCom_def gets_port_def sets_port_def run_defs syscall_def
      emit_def SerialPort_IsOpen_def new_fd_def split: list.splits if_splits)

theorem serial_IsOpen_inverted_witness:
  "\<exists>w' p'. SerialPort_Open ''/dev/ttyS1'' (world0 [reply0 0], SerialPort0) = (Val 0, (w', p')) \<and> \<not> SerialPort_IsOpen p'"
proof -
  have "\<exists>w' p'. SerialPort_Open ''/dev/ttyS1'' (world0 [reply0 0], SerialPort0) = (Val 0, (w', p'))"
    by (simp add: SerialPort_Open_def SerialPort_Close_def SetCom_def gets_port_def sets_port_def run_defs syscall_def
        emit_def new_fd_def world0_def reply0_def SerialPort0_def)
  then obtain w' p' where o: "SerialPort_Open ''/dev/ttyS1'' (world0 [reply0 0], SerialPort0) = (Val 0, (w', p'))" by blast
  from serial_IsOpen_inverted [OF this, of SerialPort0] o show ?thesis by blast
qed

end
