(* ===== verification/Config.thy ===== *)
theory Config
  imports Posix
begin

text \<open>
  \<open>Config.cpp\<close>: reading \<open>KEY=value\<close> lines of \<open>agent.conf\<close>.  A getter takes the contents of the file, \<open>None\<close>
  when it cannot be opened; its result is \<open>None\<close> when the code reads outside a buffer.

  A line that begins with a space makes \<open>GetValue\<close> step in front of its line buffer, which is undefined.
  On an empty line \<open>line[nLine-1]\<close> reads the byte in front of the buffer too, but the line matches no
  key, so the byte has no effect.
\<close>

definition nul :: char where "nul = CHR 0x00"
definition newline :: char where "newline = CHR 0x0A"

text \<open>The C string at the start of a character array.\<close>

definition cstr :: "string \<Rightarrow> string" where
  "cstr s = takeWhile (\<lambda>c. c \<noteq> nul) s"

section \<open>The C library\<close>

text \<open>\<open>fgets(line, 1024, f)\<close>: the line, the unread rest, and whether the end of the file was met.\<close>

definition fgets_len :: "string \<Rightarrow> nat" where
  "fgets_len s = min 1023 (Suc (length (takeWhile (\<lambda>c. c \<noteq> newline) s)))"

definition fgets :: "string \<Rightarrow> string \<times> string \<times> bool" where
  "fgets s = (take (fgets_len s) s, drop (fgets_len s) s, length s < fgets_len s)"

definition is_digit :: "char \<Rightarrow> bool" where
  "is_digit c = (48 \<le> (of_char c :: nat) \<and> (of_char c :: nat) \<le> 57)"

definition is_space :: "char \<Rightarrow> bool" where
  "is_space c = (c = CHR '' '' \<or> (9 \<le> (of_char c :: nat) \<and> (of_char c :: nat) \<le> 13))"

definition digits_val :: "string \<Rightarrow> int" where
  "digits_val ds = foldl (\<lambda>n c. 10 * n + (of_char c - 48)) 0 ds"

definition atoi :: "string \<Rightarrow> int" where
  "atoi s0 =
     (let s = dropWhile is_space s0;
          neg = (s \<noteq> [] \<and> hd s = CHR ''-'');
          s = (if s \<noteq> [] \<and> (hd s = CHR ''-'' \<or> hd s = CHR ''+'') then tl s else s);
          n = digits_val (takeWhile is_digit s);
          n = (if neg then - n else n)
      in max (-2147483648) (min 2147483647 n))"

section \<open>GetValue\<close>

text \<open>The line after \<open>strtok(line, "\n")\<close>: the newline has become a NUL.\<close>

definition strip_newline :: "string \<Rightarrow> string" where
  "strip_newline line = takeWhile (\<lambda>c. c \<noteq> newline) line"

definition match_line :: "string \<Rightarrow> int \<Rightarrow> string \<Rightarrow> (int \<times> string) option" where
  "match_line szKey nLen line0 =
     (let line = cstr line0;
          nszKey = length szKey;
          nLine = length line;
          nEnd = (nLine > 0 \<and> last line = newline);
          line = strip_newline line
      in if is_prefix (szKey @ ''='') line then
           (let temp = int nLine - int nszKey in
            if nLen < temp then Some (temp, '''')
            else
              let count = (if nEnd then nat (temp - 1) else nat temp)
              in Some (0, take count (drop (nszKey + 1) (line @ replicate 1024 nul))))
         else None)"

lemma fgets_shorter: "(line, rest, eof) = fgets s \<Longrightarrow> \<not> eof \<Longrightarrow> length rest < length s"
  by (auto simp: fgets_def fgets_len_def)

function GetValue_loop :: "string \<Rightarrow> int \<Rightarrow> string \<Rightarrow> (int \<times> string) option" where
  "GetValue_loop szKey nLen s =
     (case fgets s of
        (line, rest, eof) \<Rightarrow>
          if line \<noteq> [] \<and> hd line = CHR ''#'' then (if eof then Some (-2, '''') else GetValue_loop szKey nLen rest)
          else if line \<noteq> [] \<and> hd line = CHR '' '' then None
          else
            (case match_line szKey nLen line of
               Some r \<Rightarrow> Some r
             | None \<Rightarrow> if eof then Some (-2, '''') else GetValue_loop szKey nLen rest))"
  by pat_completeness auto

termination
  by (relation "measure (\<lambda>(k, n, s). length s)") (auto dest: fgets_shorter)

declare GetValue_loop.simps [simp del]

definition GetValue :: "string option \<Rightarrow> string \<Rightarrow> int \<Rightarrow> (int \<times> string) option" where
  "GetValue file szKey nLen =
     (case file of
        None \<Rightarrow> Some (-1, '''')
      | Some s \<Rightarrow> GetValue_loop szKey nLen s)"

section \<open>The getters\<close>

text \<open>\<open>if (GetValue(..., key, tmp, 1024) == 0) return tmp; return default\<close>.\<close>

definition conf_value :: "string option \<Rightarrow> string \<Rightarrow> (string \<Rightarrow> 'a) \<Rightarrow> 'a \<Rightarrow> 'a option" where
  "conf_value file key f dflt =
     (case GetValue file key 1024 of
        None \<Rightarrow> None
      | Some (n, tmp) \<Rightarrow> if n = 0 then Some (f (cstr tmp)) else Some dflt)"

definition GetServerName :: "string option \<Rightarrow> string option" where
  "GetServerName file = conf_value file ''SERVER'' (\<lambda>s. s) ''''"

definition GetMPdev :: "string option \<Rightarrow> string option" where
  "GetMPdev file = conf_value file ''MP_PORT'' (\<lambda>s. s) ''''"

definition GetMachine :: "string option \<Rightarrow> int option" where
  "GetMachine file = conf_value file ''MACHINE'' atoi 1"

definition GetModemDelay :: "string option \<Rightarrow> int option" where
  "GetModemDelay file = conf_value file ''MODEM_DELAY'' atoi 60"

definition GetPowerOnDelay :: "string option \<Rightarrow> int option" where
  "GetPowerOnDelay file = conf_value file ''POWERON_DELAY'' atoi 90"

definition GetDataPort :: "string option \<Rightarrow> int option" where
  "GetDataPort file = conf_value file ''DATA_PORT'' atoi 50001"

definition GetTraceLevel :: "string option \<Rightarrow> int option" where
  "GetTraceLevel file = conf_value file ''LOG_LEVEL'' atoi 3"

definition GetCommandPort :: "string option \<Rightarrow> int option" where
  "GetCommandPort file = conf_value file ''COMMAND_PORT'' atoi 50101"

definition GetAPN :: "string option \<Rightarrow> string option" where
  "GetAPN file = conf_value file ''APN'' (\<lambda>s. s) ''bgan.inmarsat.com''"

definition GetIP :: "string option \<Rightarrow> string option" where
  "GetIP file = conf_value file ''LOCAL_IP'' (\<lambda>s. s) ''''"

definition GetModemIP :: "string option \<Rightarrow> string option" where
  "GetModemIP file = conf_value file ''MODEM_IP'' (\<lambda>s. s) ''192.168.1.35''"

definition GetUserName :: "string option \<Rightarrow> string option" where
  "GetUserName file = conf_value file ''USERNAME'' (\<lambda>s. s) ''''"

definition GetMinSignalLevel :: "string option \<Rightarrow> int option" where
  "GetMinSignalLevel file = conf_value file ''MIN_SIGNAL'' atoi 45"

definition GetIntervalSecond :: "string option \<Rightarrow> int option" where
  "GetIntervalSecond file = conf_value file ''INTERVAL'' atoi 600"

definition GetIdelSecond :: "string option \<Rightarrow> int option" where
  "GetIdelSecond file = conf_value file ''IDELTIME'' atoi 20"

definition GetPassword :: "string option \<Rightarrow> string option" where
  "GetPassword file = conf_value file ''PASSWORD'' (\<lambda>s. s) ''''"

text \<open>The contents of a file as text, and the configuration file of the agent.\<close>

definition file_text :: "'z world_scheme \<Rightarrow> string \<Rightarrow> string option" where
  "file_text w szFile = map_option (map (\<lambda>b. char_of (unat b))) (files w szFile)"

definition conf_text :: "'z world_scheme \<Rightarrow> string option" where
  "conf_text w = file_text w ''./agent.conf''"

section \<open>Reading a line\<close>

text \<open>Lines \<open>GetValue\<close> handles without leaving its buffers.\<close>

definition line_ok :: "string \<Rightarrow> bool" where
  "line_ok l = (newline \<notin> set l \<and> nul \<notin> set l \<and> length l < 1023 \<and> (l \<noteq> [] \<longrightarrow> hd l \<noteq> CHR '' ''))"

definition unlines :: "string list \<Rightarrow> string" where
  "unlines ls = concat (map (\<lambda>l. l @ [newline]) ls)"

definition comment :: "string \<Rightarrow> bool" where
  "comment l = (l \<noteq> [] \<and> hd l = CHR ''#'')"

text \<open>The value of a key: the text after \<open>KEY=\<close> on the first line that has it and is not a comment.\<close>

fun conf_lookup :: "string list \<Rightarrow> string \<Rightarrow> string option" where
  "conf_lookup [] key = None"
| "conf_lookup (l # ls) key =
     (if \<not> comment l \<and> is_prefix (key @ ''='') l then Some (drop (length key + 1) l) else conf_lookup ls key)"

lemma unlines_simps [simp]:
  "unlines [] = []" "unlines (l # ls) = l @ newline # unlines ls" "unlines (ls1 @ ls2) = unlines ls1 @ unlines ls2"
  by (simp_all add: unlines_def)

lemma takeWhile_until: "x \<notin> set l \<Longrightarrow> takeWhile (\<lambda>c. c \<noteq> x) (l @ x # s) = l"
  by (induction l) auto

lemma takeWhile_none: "x \<notin> set l \<Longrightarrow> takeWhile (\<lambda>c. c \<noteq> x) l = l"
  by (induction l) auto

lemma cstr_id [simp]: "nul \<notin> set l \<Longrightarrow> cstr l = l"
  by (simp add: cstr_def takeWhile_none)

lemma cstr_nul [simp]: "nul \<notin> set l \<Longrightarrow> cstr (l @ nul # s) = l"
  by (simp add: cstr_def takeWhile_until)

lemma newline_nul [simp]: "newline \<noteq> nul" "nul \<noteq> newline"
  by (simp_all add: newline_def nul_def)

lemma fgets_line: "line_ok l \<Longrightarrow> fgets (l @ newline # s) = (l @ [newline], s, False)"
  by (simp add: fgets_def fgets_len_def line_ok_def takeWhile_until)

lemma match_line_eq:
  assumes "line_ok l"
  shows "match_line key 1024 (l @ [newline]) =
    (if is_prefix (key @ ''='') l then Some (0, drop (length key + 1) l @ [nul]) else None)"
proof -
  have l: "cstr (l @ [newline]) = l @ [newline]" "strip_newline (l @ [newline]) = l" "length l < 1023"
    using assms takeWhile_until [of newline l "[]"] by (auto simp: line_ok_def strip_newline_def)
  show ?thesis
  proof (cases "is_prefix (key @ ''='') l")
    case True
    then obtain v where v: "l = key @ ''='' @ v" by (auto simp: is_prefix_iff)
    have "take (Suc (length v)) (v @ replicate 1024 nul) = v @ [nul]"
      by (simp add: take_Suc_conv_app_nth nth_append)
    moreover have "nat (1 + int (length v)) = Suc (length v)" by simp
    ultimately show ?thesis using True l by (simp add: match_line_def Let_def v)
  next
    case False
    with l show ?thesis by (simp add: match_line_def Let_def)
  qed
qed

lemma GetValue_line:
  assumes "line_ok l"
  shows "GetValue_loop key 1024 (l @ newline # s) =
    (if \<not> comment l \<and> is_prefix (key @ ''='') l then Some (0, drop (length key + 1) l @ [nul])
     else GetValue_loop key 1024 s)"
proof -
  have hd: "hd (l @ [newline]) \<noteq> CHR '' ''" using assms by (cases l) (auto simp: line_ok_def newline_def)
  have cm: "hd (l @ [newline]) = CHR ''#'' \<longleftrightarrow> comment l" by (cases l) (auto simp: comment_def newline_def)
  show ?thesis
    by (subst GetValue_loop.simps) (auto simp: fgets_line [OF assms] match_line_eq [OF assms] hd cm)
qed

lemma GetValue_end: "GetValue_loop key 1024 [] = Some (-2, [])"
proof -
  have "match_line key 1024 [] = None" by (cases key) (auto simp: match_line_def cstr_def strip_newline_def Let_def)
  then show ?thesis by (subst GetValue_loop.simps) (simp add: fgets_def fgets_len_def)
qed

lemma conf_value_unlines:
  assumes "list_all line_ok ls"
  shows "conf_value (Some (unlines ls)) key f dflt =
    Some (case conf_lookup ls key of None \<Rightarrow> dflt | Some v \<Rightarrow> f v)"
  using assms
proof (induction ls)
  case Nil
  then show ?case by (simp add: conf_value_def GetValue_def GetValue_end)
next
  case (Cons l ls)
  then have l: "line_ok l" by simp
  show ?case
  proof (cases "\<not> comment l \<and> is_prefix (key @ ''='') l")
    case True
    have "nul \<notin> set (drop (length key + 1) l)" using l by (auto simp: line_ok_def dest: in_set_dropD)
    with True show ?thesis by (simp add: conf_value_def GetValue_def GetValue_line [OF l])
  next
    case False
    then have "conf_value (Some (unlines (l # ls))) key f dflt = conf_value (Some (unlines ls)) key f dflt"
      by (auto simp: conf_value_def GetValue_def GetValue_line [OF l])
    with False Cons show ?thesis by auto
  qed
qed



end
