(* ===== verification/ConfigCgi.thy ===== *)
theory ConfigCgi
  imports Config
begin

text \<open>
  The configuration page (src/config/src/config.cpp): a CGI program that decodes a posted form, writes
  \<open>agent.conf\<close> and prints the current settings.  Positions in the form are indices into it; \<open>None\<close> is a
  run that leaves the buffer.
\<close>

section \<open>Decoding the form\<close>

definition hex_val :: "char \<Rightarrow> nat option" where
  "hex_val c =
     (let n = of_char c in
      if 48 \<le> n \<and> n \<le> 57 then Some (n - 48)
      else if 65 \<le> n \<and> n \<le> 70 then Some (n - 55)
      else if 97 \<le> n \<and> n \<le> 102 then Some (n - 87)
      else None)"

fun hex_digits :: "nat \<Rightarrow> nat \<Rightarrow> string \<Rightarrow> nat" where
  "hex_digits 0 n s = n"
| "hex_digits (Suc k) n [] = n"
| "hex_digits (Suc k) n (c # s) = (case hex_val c of None \<Rightarrow> n | Some d \<Rightarrow> hex_digits k (16 * n + d) s)"

text \<open>\<open>sscanf(s, "%2x", &code)\<close>: white space is skipped, a sign counts against the width.\<close>

definition scan_2x :: "string \<Rightarrow> int option" where
  "scan_2x s0 =
     (let s = dropWhile is_space s0;
          sign = (s \<noteq> [] \<and> (hd s = CHR ''-'' \<or> hd s = CHR ''+''));
          neg = (s \<noteq> [] \<and> hd s = CHR ''-'');
          s = (if sign then tl s else s)
      in if s = [] \<or> hex_val (hd s) = None then None
         else let n = int (hex_digits (if sign then 1 else 2) 0 s) in Some (if neg then - n else n))"

function urldecode :: "string \<Rightarrow> nat \<Rightarrow> nat \<Rightarrow> string option" where
  "urldecode buf src limit =
     (if src = limit then Some [newline]
      else if src > length buf then None
      else
        let c = (if src < length buf then buf ! src else nul) in
        if c = CHR ''+'' then map_option (\<lambda>d. CHR '' '' # d) (urldecode buf (src + 1) limit)
        else if c = CHR ''%'' then
          (let code = (case scan_2x (drop (src + 1) buf) of None \<Rightarrow> 63 | Some code \<Rightarrow> code)
           in map_option (\<lambda>d. char_of (nat (code mod 256)) # d) (urldecode buf (src + 3) limit))
        else map_option (\<lambda>d. c # d) (urldecode buf (src + 1) limit))"
  by pat_completeness auto
termination
  by (relation "measure (\<lambda>(buf, src, limit). Suc (length buf) - src)") auto

declare urldecode.simps [simp del]

definition get_key :: "string \<Rightarrow> string \<Rightarrow> string option" where
  "get_key szKey szBuf =
     (case find_sub szKey szBuf of
        None \<Rightarrow> Some ''''
      | Some szFound \<Rightarrow>
          let limit = (case find_sub ''&'' (drop szFound szBuf) of
                        Some e \<Rightarrow> szFound + e
                      | None \<Rightarrow> length szBuf)
          in map_option cstr (urldecode szBuf (szFound + length szKey + 1) limit))"

section \<open>Writing agent.conf\<close>

fun dec_nat :: "nat \<Rightarrow> string" where
  "dec_nat n = (if n < 10 then [char_of (48 + n)] else dec_nat (n div 10) @ [char_of (48 + n mod 10)])"

declare dec_nat.simps [simp del]

definition show_int :: "int \<Rightarrow> string" where
  "show_int n = (if n < 0 then ''-'' @ dec_nat (nat (- n)) else dec_nat (nat n))"

definition print_config_str :: "string \<Rightarrow> string \<Rightarrow> string \<Rightarrow> string \<Rightarrow> string option" where
  "print_config_str buf szKey szDef szDesc =
     map_option (\<lambda>strVal0.
       let strVal = (if strVal0 = [] then szDef else strVal0)
       in ''#'' @ szDesc @ [newline] @ szKey @ ''='' @ strVal @ [newline]) (get_key szKey buf)"

definition print_config_int :: "string \<Rightarrow> string \<Rightarrow> int \<Rightarrow> string \<Rightarrow> string option" where
  "print_config_int buf szKey nDef szDesc =
     map_option (\<lambda>strVal.
       if strVal = [] then ''#'' @ szDesc @ [newline] @ szKey @ ''='' @ show_int nDef @ [newline]
       else ''#'' @ szDesc @ [newline] @ szKey @ ''='' @ strVal @ [newline]) (get_key szKey buf)"

fun cat_opt :: "string option list \<Rightarrow> string option" where
  "cat_opt [] = Some []"
| "cat_opt (x # xs) = (case (x, cat_opt xs) of (Some a, Some b) \<Rightarrow> Some (a @ b) | _ \<Rightarrow> None)"

text \<open>\<open>cDef\<close> is the configuration with the empty file name, which never opens: all defaults.\<close>

definition save_config :: "string \<Rightarrow> string option" where
  "save_config szBuf =
     cat_opt
       [print_config_str szBuf ''SERVER'' (the (GetServerName None)) ''Server address'',
        print_config_int szBuf ''DATA_PORT'' (the (GetDataPort None)) ''TCP port for data transmit'',
        print_config_int szBuf ''COMMAND_PORT'' (the (GetCommandPort None)) ''TCP port for control command port'',
        print_config_int szBuf ''INTERVAL'' (the (GetIntervalSecond None)) ''communication interval in seconds'',
        print_config_int szBuf ''POWERON_DELAY'' (the (GetPowerOnDelay None)) ''waiting second for MP self test'',
        print_config_int szBuf ''LOG_LEVEL'' (the (GetTraceLevel None))
          ''log message detail level, 0-9, 0 for more, 9 for less detail'',
        print_config_str szBuf ''MP_PORT'' (the (GetMPdev None)) ''device file name for MP'',
        print_config_int szBuf ''MACHINE'' (the (GetMachine None)) ''Part No. of  MP'',
        print_config_str szBuf ''APN'' (the (GetAPN None)) ''satellite access APN'',
        print_config_str szBuf ''LOCAL_IP'' (the (GetIP None)) ''public IP for satellite modem'',
        print_config_str szBuf ''MODEM_IP'' (the (GetModemIP None)) ''satellite modem access IP'',
        print_config_str szBuf ''USERNAME'' (the (GetUserName None)) ''satellite modem user name'',
        print_config_str szBuf ''PASSWORD'' (the (GetPassword None)) ''access password'',
        print_config_int szBuf ''MODEM_DELAY'' (the (GetModemDelay None)) ''modem AT command response waiting second'',
        print_config_int szBuf ''MIN_SINGAL'' (the (GetMinSignalLevel None)) ''minimum satellite signal level'']"

section \<open>The page\<close>

definition outItem_str :: "string \<Rightarrow> string option \<Rightarrow> string option \<Rightarrow> string \<Rightarrow> string option" where
  "outItem_str szName szVal szDefault szDesc =
     (case (szVal, szDefault) of
        (Some v, Some d) \<Rightarrow>
          Some (''<item>'' @ [newline] @ ''<key>'' @ szName @ ''</key>'' @ [newline] @
                ''<value>'' @ v @ ''</value>'' @ [newline] @
                (if length d > 0 then ''<default>'' @ d @ ''</default>'' @ [newline]
                 else ''<default>'' @ ''-'' @ ''</default>'' @ [newline]) @
                ''<descript>'' @ szDesc @ ''</descript>'' @ [newline] @ ''</item>'' @ [newline])
      | _ \<Rightarrow> None)"

definition outItem_int :: "string \<Rightarrow> int option \<Rightarrow> int option \<Rightarrow> string \<Rightarrow> string option" where
  "outItem_int szName nVal nDefault szDesc =
     (case (nVal, nDefault) of
        (Some v, Some d) \<Rightarrow>
          Some (''<item>'' @ [newline] @ ''<key>'' @ szName @ ''</key>'' @ [newline] @
                ''<value>'' @ show_int v @ ''</value>'' @ [newline] @
                ''<default>'' @ show_int d @ ''</default>'' @ [newline] @
                ''<descript>'' @ szDesc @ ''</descript>'' @ [newline] @ ''</item>'' @ [newline])
      | _ \<Rightarrow> None)"

definition cgi_items :: "string option \<Rightarrow> string option" where
  "cgi_items conf =
     cat_opt
       [outItem_str ''SERVER'' (GetServerName conf) (GetServerName None) ''Server address'',
        outItem_int ''DATA_PORT'' (GetDataPort conf) (GetDataPort None) ''TCP port for data transmit'',
        outItem_int ''COMMAND_PORT'' (GetCommandPort conf) (GetCommandPort None) ''TCP port for control command'',
        outItem_int ''INTERVAL'' (GetIntervalSecond conf) (GetIntervalSecond None) ''communication interval in seconds'',
        outItem_int ''POWERON_DELAY'' (GetPowerOnDelay conf) (GetPowerOnDelay None) ''waiting seconds for MP self test'',
        outItem_int ''LOG_LEVEL'' (GetTraceLevel conf) (GetTraceLevel None)
          ''log message detail level, 0-9, 0 for more, 9 for less detail'',
        outItem_str ''MP_PORT'' (GetMPdev conf) (GetMPdev None) ''device file name for MP'',
        outItem_int ''MACHINE'' (GetMachine conf) (GetMachine None) ''Part No. of  MP'',
        outItem_str ''APN'' (GetAPN conf) (GetAPN None) ''satellite access APN'',
        outItem_str ''LOCAL_IP'' (GetIP conf) (GetIP None) ''public IP for satellite modem'',
        outItem_str ''MODEM_IP'' (GetModemIP conf) (GetModemIP None) ''satellite modem access IP'',
        outItem_str ''USERNAME'' (GetUserName conf) (GetUserName None) ''satellite modem user name'',
        outItem_str ''PASSWORD'' (GetPassword conf) (GetPassword None) ''access password'',
        outItem_int ''MODEM_DELAY'' (GetModemDelay conf) (GetModemDelay None) ''modem AT command response waiting second'',
        outItem_int ''MIN_SINGAL'' (GetMinSignalLevel conf) (GetMinSignalLevel None) ''minimum satellite signal level'']"

text \<open>
  The environment of one request: \<open>CONTENT_LENGTH\<close>, standard input, the old contents of
  \<open>agent.conf\<close>, whether it can be opened for writing, and the text of the current time.
\<close>

record cgi_env =
  lenstr :: "string option"
  stdin :: string
  old_conf :: "string option"
  writable :: bool
  sNow :: string

record cgi_result =
  page :: string
  new_conf :: "string option"
  reboot :: bool

definition scan_ld :: "string \<Rightarrow> int option" where
  "scan_ld s0 =
     (let s = dropWhile is_space s0;
          neg = (s \<noteq> [] \<and> hd s = CHR ''-'');
          s = (if s \<noteq> [] \<and> (hd s = CHR ''-'' \<or> hd s = CHR ''+'') then tl s else s);
          ds = takeWhile is_digit s
      in if ds = [] then None else Some (if neg then - digits_val ds else digits_val ds))"

text \<open>\<open>fgets(buf, len+1, stdin)\<close> into \<open>char buf[1024]\<close>: the terminating NUL of 1024 characters does not fit.\<close>

definition read_form :: "int \<Rightarrow> string \<Rightarrow> string option" where
  "read_form len inp =
     (let n = Suc (length (takeWhile (\<lambda>c. c \<noteq> newline) inp));
          s = take (min (nat len) n) inp
      in if length s \<ge> 1024 then None else Some (cstr s))"

definition cgi_request :: "cgi_env \<Rightarrow> (string \<times> string) option" where
  "cgi_request env =
     (case lenstr env of
        None \<Rightarrow> Some ('''', '''')
      | Some l \<Rightarrow>
          (case scan_ld l of
             None \<Rightarrow> Some (''Content length error:'' @ l, '''')
           | Some len \<Rightarrow>
               if len > 1024 then Some (''Content length error:'' @ l, '''')
               else map_option (\<lambda>b. ('''', b)) (read_form len (stdin env))))"

text \<open>The part of \<open>main\<close> between reading the form and printing: message, file contents, reboot.\<close>

text \<open>What \<open>save_config\<close> leaves: the message and the file.\<close>

definition save_outcome :: "cgi_env \<Rightarrow> string \<Rightarrow> (string \<times> string option) option" where
  "save_outcome env szBuf =
     (if writable env then
        map_option (\<lambda>c.
          (''Parameters saved at I/F UNIT local time:'' @ sNow env @
           ''. Please press reboot button to make them effect '', Some c)) (save_config szBuf)
      else Some (''open file error'', old_conf env))"

definition cgi_action :: "cgi_env \<Rightarrow> string \<Rightarrow> string \<Rightarrow> (string \<times> string option \<times> bool) option" where
  "cgi_action env strMsg buf =
     (if length buf > 0 then
        (case get_key ''Submit'' buf of
           None \<Rightarrow> None
         | Some strReboot \<Rightarrow>
             if contains buf ''reboot'' then Some (''System will reboot in 5 seconds.'', old_conf env, True)
             else map_option (\<lambda>(strMsg, conf). (strMsg, conf, False)) (save_outcome env buf))
      else Some (strMsg, old_conf env, False))"

definition cgi_main :: "cgi_env \<Rightarrow> cgi_result option" where
  "cgi_main env =
     (case cgi_request env of
        None \<Rightarrow> None
      | Some (strMsg, buf) \<Rightarrow>
          (case cgi_action env strMsg buf of
             None \<Rightarrow> None
           | Some (strMsg, conf, rb) \<Rightarrow>
               map_option (\<lambda>items.
                 \<lparr>page =
                    ''Content-type: text/xml'' @ [newline] @ [newline] @
                    ''<?xml version=\"1.0\" encoding=\"utf-8\"?>'' @ [newline] @
                    ''<?xml-stylesheet type=\"text/xsl\" href=\"config.xsl\"?>'' @ [newline] @
                    ''<device_agent_config>'' @ [newline] @
                    ''<prompt>'' @ strMsg @ ''</prompt>'' @ [newline] @
                    items @ ''</device_agent_config>'' @ [newline],
                  new_conf = conf, reboot = rb\<rparr>) (cgi_items conf)))"

section \<open>Decoding inverts form encoding\<close>

text \<open>The form encoding of a browser (application/x-www-form-urlencoded).\<close>

definition plain_char :: "char \<Rightarrow> bool" where
  "plain_char c =
     (is_digit c \<or> (65 \<le> (of_char c :: nat) \<and> (of_char c :: nat) \<le> 90) \<or>
      (97 \<le> (of_char c :: nat) \<and> (of_char c :: nat) \<le> 122) \<or> c \<in> {CHR ''-'', CHR ''.'', CHR ''_''})"

definition hex_char :: "nat \<Rightarrow> char" where
  "hex_char n = char_of (if n < 10 then 48 + n else 55 + n)"

definition url_char :: "char \<Rightarrow> string" where
  "url_char c =
     (if c = CHR '' '' then ''+''
      else if plain_char c then [c]
      else [CHR ''%'', hex_char (of_char c div 16), hex_char (of_char c mod 16)])"

definition urlencode :: "string \<Rightarrow> string" where
  "urlencode v = concat (map url_char v)"

lemma of_hex_char: "n < 16 \<Longrightarrow> (of_char (hex_char n) :: nat) = (if n < 10 then 48 + n else 55 + n)"
  by (simp add: hex_char_def)

lemma hex_char_props:
  assumes "n < 16"
  shows "hex_val (hex_char n) = Some n" "\<not> is_space (hex_char n)" "hex_char n \<noteq> CHR ''-''" "hex_char n \<noteq> CHR ''+''"
    "hex_char n \<noteq> CHR ''&''"
proof -
  have ne: "hex_char n \<noteq> c" if "(of_char c :: nat) < 48" for c
    using that of_hex_char [OF assms] by (auto split: if_splits)
  show "hex_val (hex_char n) = Some n"
    using assms of_hex_char [OF assms] by (simp add: hex_val_def Let_def)
  show "\<not> is_space (hex_char n)"
    using of_hex_char [OF assms] ne [of "CHR '' ''"] by (auto simp: is_space_def split: if_splits)
  show "hex_char n \<noteq> CHR ''-''" "hex_char n \<noteq> CHR ''+''" "hex_char n \<noteq> CHR ''&''"
    by (rule ne, simp)+
qed

lemma of_char_256: "of_char c < (256 :: nat)"
  by (rule nat_of_char_less_256)

lemma scan_2x_hex:
  assumes "a < 16" "b < 16"
  shows "scan_2x (hex_char a # hex_char b # rest) = Some (int (16 * a + b))"
  using hex_char_props [OF assms(1)] hex_char_props [OF assms(2)]
  by (simp add: scan_2x_def numeral_2_eq_2)

lemma nth_mid: "(pre @ c # rest) ! length pre = c"
  by simp

lemma drop_mid: "drop (Suc (length pre)) (pre @ c # rest) = rest"
  by simp

lemma plain_char_props: "plain_char c \<Longrightarrow> c \<noteq> CHR ''+'' \<and> c \<noteq> CHR ''%'' \<and> c \<noteq> CHR ''&''"
  by (auto simp: plain_char_def is_digit_def)

lemma urldecode_char:
  assumes "limit \<ge> length pre + length (url_char c)"
  shows "urldecode (pre @ url_char c @ rest) (length pre) limit =
    map_option (\<lambda>d. c # d) (urldecode (pre @ url_char c @ rest) (length pre + length (url_char c)) limit)"
proof -
  consider "c = CHR '' ''" | "c \<noteq> CHR '' ''" "plain_char c" | "c \<noteq> CHR '' ''" "\<not> plain_char c" by blast
  then show ?thesis
  proof cases
    case 1
    with assms show ?thesis by (subst urldecode.simps) (simp add: url_char_def)
  next
    case 2
    with assms plain_char_props [of c] show ?thesis by (subst urldecode.simps) (simp add: url_char_def)
  next
    case 3
    let ?a = "of_char c div 16 :: nat" and ?b = "of_char c mod 16 :: nat"
    have ab: "?a < 16" "?b < 16" "16 * ?a + ?b = of_char c"
      using of_char_256 [of c] by (simp_all add: less_mult_imp_div_less)
    have "int (16 * ?a + ?b) mod 256 = int (of_char c)" unfolding ab(3) using of_char_256 [of c] by simp
    then have "char_of (nat (int (16 * ?a + ?b) mod 256)) = c" by simp
    then show ?thesis
      using 3 assms scan_2x_hex [OF ab(1,2), of rest]
      by (subst urldecode.simps) (simp add: url_char_def drop_mid Let_def numeral_3_eq_3)
  qed
qed

lemma urldecode_urlencode:
  "urldecode (pre @ urlencode v @ rest) (length pre) (length pre + length (urlencode v)) = Some (v @ [newline])"
proof (induction v arbitrary: pre)
  case Nil
  then show ?case by (simp add: urlencode_def urldecode.simps)
next
  case (Cons c v)
  have enc: "urlencode (c # v) = url_char c @ urlencode v" by (simp add: urlencode_def)
  have "urldecode (pre @ url_char c @ urlencode v @ rest) (length pre) (length pre + length (url_char c @ urlencode v)) =
      map_option (\<lambda>d. c # d) (urldecode (pre @ url_char c @ urlencode v @ rest) (length pre + length (url_char c))
        (length pre + length (url_char c @ urlencode v)))"
    by (rule urldecode_char) simp
  also have "\<dots> = Some ((c # v) @ [newline])"
    using Cons.IH [of "pre @ url_char c"] by (simp add: add.assoc)
  finally show ?case by (simp add: enc)
qed

lemma amp_urlencode: "CHR ''&'' \<notin> set (urlencode v)"
proof -
  have "CHR ''&'' \<notin> set (url_char c)" for c
    using plain_char_props [of c] hex_char_props(5) [of "of_char c div 16"] hex_char_props(5) [of "of_char c mod 16"]
      of_char_256 [of c]
    by (auto simp: url_char_def less_mult_imp_div_less dest!: sym [of "CHR ''&''"])
  then show ?thesis by (auto simp: urlencode_def)
qed

lemma find_sub_amp:
  assumes "CHR ''&'' \<notin> set xs" "tail = [] \<or> hd tail = CHR ''&''"
  shows "(case find_sub ''&'' (xs @ tail) of Some e \<Rightarrow> p + e | None \<Rightarrow> p + length (xs @ tail)) = p + length xs"
proof -
  have "find_sub ''&'' (xs @ tail) = (if tail = [] then None else Some (length xs))"
    using assms by (induction xs) (cases tail, auto)+
  then show ?thesis by simp
qed

lemma get_key_field:
  assumes "form = pre @ key @ ''='' @ urlencode v @ tail" "tail = [] \<or> hd tail = CHR ''&''"
    and "find_sub key form = Some (length pre)" "CHR ''&'' \<notin> set key" "nul \<notin> set v"
  shows "get_key key form = Some (v @ [newline])"
proof -
  let ?head = "pre @ key @ ''=''"
  have drop: "drop (length pre) form = (key @ ''='' @ urlencode v) @ tail" by (simp add: assms(1))
  have len: "length form = length pre + length ((key @ ''='' @ urlencode v) @ tail)" by (simp add: assms(1))
  have "(case find_sub ''&'' (drop (length pre) form) of Some e \<Rightarrow> length pre + e | None \<Rightarrow> length form) =
      length pre + length (key @ ''='' @ urlencode v)"
    unfolding drop len by (rule find_sub_amp) (use assms(2,4) amp_urlencode [of v] in auto)
  moreover have "urldecode form (length ?head) (length ?head + length (urlencode v)) = Some (v @ [newline])"
    using urldecode_urlencode [of ?head v tail] assms(1) by simp
  moreover have "nul \<notin> set (v @ [newline])" using assms(5) by simp
  then have "cstr (v @ [newline]) = v @ [newline]" by (rule cstr_id)
  ultimately show ?thesis
    by (simp add: get_key_def assms(3) Let_def add.assoc)
qed

text \<open>
  C31: \<open>get_key\<close> recovers a form field.  If the first occurrence of the key in the form is its own field, and the
  browser encoded the value, the result is the value, followed by the newline \<open>urldecode\<close> adds.
\<close>

theorem get_key_roundtrip:
  assumes "form = pre @ key @ ''='' @ urlencode v @ tail" "tail = [] \<or> hd tail = CHR ''&''"
    and "find_sub key form = Some (length pre)" "CHR ''&'' \<notin> set key" "nul \<notin> set v"
  shows "get_key key form = Some (v @ [newline])"
  using assms by (rule get_key_field)

theorem get_key_roundtrip_witness:
  "get_key ''APN'' ''SERVER=a&APN=x+y%26z&Submit=Save'' = Some (''x y&z'' @ [newline])"
proof (rule get_key_roundtrip [where pre = "''SERVER=a&''" and tail = "''&Submit=Save''"])
  show "''SERVER=a&APN=x+y%26z&Submit=Save'' = ''SERVER=a&'' @ ''APN'' @ ''='' @ urlencode ''x y&z'' @ ''&Submit=Save''"
    by code_simp
qed (simp_all add: nul_def)

text \<open>
  \<open>get_key\<close> leaves its buffer on two harmless-looking forms: when the key text occurs inside an earlier value,
  and when a value ends in a percent sign.  In both cases the decoder's position jumps over its end mark.
\<close>

theorem get_key_overrun:
  "get_key ''APN'' ''SERVER=JAPN&APN=x'' = None \<and> get_key ''SERVER'' ''SERVER=50%'' = None"
  by (simp add: get_key_def urldecode.simps Let_def)

section \<open>What is saved is what is read\<close>

text \<open>
  An entry of the written file: description, key, what \<open>get_key\<close> returned, default.  A value taken from the
  form ends in the newline of \<open>urldecode\<close>, so an empty line follows it.
\<close>

type_synonym conf_entry = "string \<times> string \<times> string \<times> string"

fun saved_value :: "conf_entry \<Rightarrow> string" where
  "saved_value (desc, key, v, dflt) = (if v = [] then dflt else butlast v)"

fun entry_key :: "conf_entry \<Rightarrow> string" where
  "entry_key (desc, key, v, dflt) = key"

fun entry_lines :: "conf_entry \<Rightarrow> string list" where
  "entry_lines (desc, key, v, dflt) =
     (if v = [] then [''#'' @ desc, key @ ''='' @ dflt] else [''#'' @ desc, key @ ''='' @ butlast v, []])"

definition text_ok :: "string \<Rightarrow> bool" where
  "text_ok s = (newline \<notin> set s \<and> nul \<notin> set s \<and> length s \<le> 900)"

definition key_ok :: "string \<Rightarrow> bool" where
  "key_ok k = (k \<noteq> [] \<and> CHR ''='' \<notin> set k \<and> hd k \<noteq> CHR ''#'' \<and> hd k \<noteq> CHR '' '' \<and> text_ok k \<and> length k \<le> 100)"

definition form_value_ok :: "string option \<Rightarrow> bool" where
  "form_value_ok x =
     (case x of None \<Rightarrow> False | Some v \<Rightarrow> v = [] \<or> (last v = newline \<and> text_ok (butlast v)))"

fun entry_ok :: "conf_entry \<Rightarrow> bool" where
  "entry_ok (desc, key, v, dflt) = (text_ok desc \<and> key_ok key \<and> text_ok dflt \<and> form_value_ok (Some v))"

lemma is_prefix_key: "CHR ''='' \<notin> set k \<Longrightarrow> CHR ''='' \<notin> set key \<Longrightarrow> is_prefix (k @ ''='') (key @ ''='' @ v) \<longleftrightarrow> k = key"
proof (induction k key rule: list_induct2')
  case (3 y ys)
  then show ?case by auto
qed auto

lemma conf_lookup_entry:
  assumes "entry_ok e" "key_ok k"
  shows "conf_lookup (entry_lines e @ ls) k = (if k = entry_key e then Some (saved_value e) else conf_lookup ls k)"
proof -
  obtain desc key v dflt where e: "e = (desc, key, v, dflt)" by (cases e)
  from assms have k: "CHR ''='' \<notin> set k" "CHR ''='' \<notin> set key" "\<not> comment (key @ x)" "\<not> is_prefix (k @ ''='') []" for x
    by (auto simp: e key_ok_def comment_def hd_append, cases k, auto)
  note pre = is_prefix_key [OF k(1,2)]
  show ?thesis
    using pre [of "butlast v"] pre [of dflt] k(3) [of "''='' @ butlast v"] k(3) [of "''='' @ dflt"] k(4)
    by (cases "v = []"; cases "k = key") (simp_all add: e comment_def)
qed

lemma conf_lookup_entries:
  assumes "list_all entry_ok es" "key_ok k"
  shows "conf_lookup (concat (map entry_lines es)) k = map_of (map (\<lambda>e. (entry_key e, saved_value e)) es) k"
  using assms(1) by (induction es) (auto simp: conf_lookup_entry [OF _ assms(2)])

lemma line_ok_entry: "entry_ok e \<Longrightarrow> list_all line_ok (entry_lines e)"
  by (cases e) (auto simp: line_ok_def text_ok_def key_ok_def form_value_ok_def hd_append newline_def nul_def)

lemma line_ok_entries: "list_all entry_ok es \<Longrightarrow> list_all line_ok (concat (map entry_lines es))"
  by (induction es) (auto simp: line_ok_entry)

lemma butlast_newline: "v \<noteq> [] \<Longrightarrow> last v = newline \<Longrightarrow> v = butlast v @ [newline]"
  by (metis append_butlast_last_id)

lemma print_config_lines:
  assumes "form_value_ok (get_key key buf)" "get_key key buf = Some v"
  shows "print_config_str buf key d desc = Some (unlines (entry_lines (desc, key, v, d)))"
    "print_config_int buf key n desc = Some (unlines (entry_lines (desc, key, v, show_int n)))"
proof -
  have "v = [] \<or> v = butlast v @ [newline]" using assms butlast_newline by (auto simp: form_value_ok_def)
  then show "print_config_str buf key d desc = Some (unlines (entry_lines (desc, key, v, d)))"
    "print_config_int buf key n desc = Some (unlines (entry_lines (desc, key, v, show_int n)))"
    using assms(2) by (auto simp: print_config_str_def print_config_int_def Let_def simp del: butlast.simps)
qed

lemma unlines_concat: "unlines (concat lss) = concat (map unlines lss)"
  by (induction lss) (auto simp: unlines_def)

lemma cat_opt_Some: "cat_opt (map Some xs) = Some (concat xs)"
  by (induction xs) auto

text \<open>The fifteen entries \<open>save_config\<close> writes.\<close>

definition conf_entries :: "string \<Rightarrow> conf_entry list" where
  "conf_entries buf =
     map (\<lambda>(desc, key, dflt). (desc, key, the (get_key key buf), dflt))
       [(''Server address'', ''SERVER'', []),
        (''TCP port for data transmit'', ''DATA_PORT'', ''50001''),
        (''TCP port for control command port'', ''COMMAND_PORT'', ''50101''),
        (''communication interval in seconds'', ''INTERVAL'', ''600''),
        (''waiting second for MP self test'', ''POWERON_DELAY'', ''90''),
        (''log message detail level, 0-9, 0 for more, 9 for less detail'', ''LOG_LEVEL'', ''3''),
        (''device file name for MP'', ''MP_PORT'', []),
        (''Part No. of  MP'', ''MACHINE'', ''1''),
        (''satellite access APN'', ''APN'', ''bgan.inmarsat.com''),
        (''public IP for satellite modem'', ''LOCAL_IP'', []),
        (''satellite modem access IP'', ''MODEM_IP'', ''192.168.1.35''),
        (''satellite modem user name'', ''USERNAME'', []),
        (''access password'', ''PASSWORD'', []),
        (''modem AT command response waiting second'', ''MODEM_DELAY'', ''60''),
        (''minimum satellite signal level'', ''MIN_SINGAL'', ''45'')]"

definition conf_keys :: "string list" where
  "conf_keys =
     [''SERVER'', ''DATA_PORT'', ''COMMAND_PORT'', ''INTERVAL'', ''POWERON_DELAY'', ''LOG_LEVEL'', ''MP_PORT'',
      ''MACHINE'', ''APN'', ''LOCAL_IP'', ''MODEM_IP'', ''USERNAME'', ''PASSWORD'', ''MODEM_DELAY'', ''MIN_SINGAL'']"

definition form_ok :: "string \<Rightarrow> bool" where
  "form_ok buf = list_all (\<lambda>k. form_value_ok (get_key k buf)) conf_keys"

lemma show_int_defaults:
  "show_int 50001 = ''50001''" "show_int 50101 = ''50101''" "show_int 600 = ''600''" "show_int 90 = ''90''"
  "show_int 3 = ''3''" "show_int 1 = ''1''" "show_int 60 = ''60''" "show_int 45 = ''45''"
  by (simp_all add: show_int_def dec_nat.simps char_of_def bit_0)

lemma defaults:
  "GetServerName None = Some []" "GetDataPort None = Some 50001" "GetCommandPort None = Some 50101"
  "GetIntervalSecond None = Some 600" "GetPowerOnDelay None = Some 90" "GetTraceLevel None = Some 3"
  "GetMPdev None = Some []" "GetMachine None = Some 1" "GetAPN None = Some ''bgan.inmarsat.com''"
  "GetIP None = Some []" "GetModemIP None = Some ''192.168.1.35''" "GetUserName None = Some []"
  "GetPassword None = Some []" "GetModemDelay None = Some 60" "GetMinSignalLevel None = Some 45"
  by (simp_all add: GetServerName_def GetDataPort_def GetCommandPort_def GetIntervalSecond_def GetPowerOnDelay_def
      GetTraceLevel_def GetMPdev_def GetMachine_def GetAPN_def GetIP_def GetModemIP_def GetUserName_def GetPassword_def
      GetModemDelay_def GetMinSignalLevel_def conf_value_def GetValue_def)

lemma save_config_lines:
  assumes "form_ok buf"
  shows "save_config buf = Some (unlines (concat (map entry_lines (conf_entries buf))))"
proof -
  have form: "form_value_ok (get_key k buf)" "get_key k buf = Some (the (get_key k buf))" if "k \<in> set conf_keys" for k
    using assms that by (auto simp: form_ok_def list_all_iff form_value_ok_def split: option.splits)
  have str: "print_config_str buf k d desc = Some (unlines (entry_lines (desc, k, the (get_key k buf), d)))"
    and int: "print_config_int buf k n desc = Some (unlines (entry_lines (desc, k, the (get_key k buf), show_int n)))"
    if "k \<in> set conf_keys" for k d n desc
    using print_config_lines [OF form(1) [OF that] form(2) [OF that]] by simp_all
  show ?thesis
    unfolding save_config_def unlines_concat conf_entries_def defaults option.sel
    by (simp add: str int conf_keys_def show_int_defaults del: entry_lines.simps unlines_simps)
qed

lemma entries_ok:
  assumes "form_ok buf"
  shows "list_all entry_ok (conf_entries buf)"
proof -
  have form: "form_value_ok (Some (the (get_key k buf)))" if "k \<in> set conf_keys" for k
    using assms that by (auto simp: form_ok_def list_all_iff form_value_ok_def split: option.splits)
  have "text_ok desc \<and> key_ok key \<and> text_ok dflt"
    if "(desc, key, v, dflt) \<in> set (conf_entries buf)" for desc key v dflt
    using that by (auto simp: conf_entries_def text_ok_def key_ok_def newline_def nul_def)
  moreover have "form_value_ok (Some v)" if "(desc, key, v, dflt) \<in> set (conf_entries buf)" for desc key v dflt
    using that by (auto simp: conf_entries_def intro!: form simp: conf_keys_def)
  ultimately show ?thesis unfolding list_all_iff by (metis entry_ok.simps prod_cases4)
qed

lemma conf_value_saved:
  assumes "form_ok buf" "key_ok k"
  shows "conf_value (Some (unlines (concat (map entry_lines (conf_entries buf))))) k f dflt =
    Some (case map_of (map (\<lambda>e. (entry_key e, saved_value e)) (conf_entries buf)) k of None \<Rightarrow> dflt | Some v \<Rightarrow> f v)"
  by (simp only: conf_value_unlines [OF line_ok_entries [OF entries_ok [OF assms(1)]]]
      conf_lookup_entries [OF entries_ok [OF assms(1)] assms(2)])

text \<open>The setting a form asks for: the submitted value, or the default when the field is missing.\<close>

definition form_setting :: "string \<Rightarrow> string \<Rightarrow> string \<Rightarrow> string" where
  "form_setting buf key dflt = (case the (get_key key buf) of [] \<Rightarrow> dflt | v \<Rightarrow> butlast v)"

lemma saved_form_setting: "saved_value (desc, key, the (get_key key buf), dflt) = form_setting buf key dflt"
  by (auto simp: form_setting_def split: list.splits)



end
