(* ===== verification/Modem.thy ===== *)
theory Modem
  imports Complex_Main TCPPort Config
begin

text \<open>
  \<open>class Modem\<close> (Modem.h, Modem.cpp): the satellite modem, driven by AT commands over a TCP port.
  The object extends the environment, so its methods are programs over one record; the methods of
  the command port \<open>UT_ATPort\<close> are run on that field.

  Signal levels are exact decimals; the rounding of \<open>float\<close> is not modelled.
\<close>

record modem = world +
  bPowerOff :: bool
  bModemOpen :: bool
  at_cache :: "byte list"
  UT_ATPort :: tcpport
  strAPN :: string
  strUserName :: string
  strIP :: string
  strPassword :: string

type_synonym ('z, 'a) mprog = "('z modem_scheme, 'a) prog"

definition atp :: "('z modem_scheme \<times> tcpport, 'a) prog \<Rightarrow> ('z, 'a) mprog" where
  "atp m = on_obj UT_ATPort (\<lambda>p. UT_ATPort_update (\<lambda>_. p)) m"

definition set_cache :: "byte list \<Rightarrow> ('z, unit) mprog" where
  "set_cache c = modify (at_cache_update (\<lambda>_. c))"

definition crlf :: string where
  "crlf = [CHR 0x0D, CHR 0x0A]"

section \<open>Answers of the modem\<close>

definition Wait_body :: "byte list \<Rightarrow> int \<Rightarrow> timeval \<Rightarrow> unit \<Rightarrow> ('z, unit + bool) mprog" where
  "Wait_body szWait nTimeout start u =
     bnd (atp (TCPPort_Read 256)) (\<lambda>buf.
     thn (modify (\<lambda>m. m\<lparr>at_cache := at_cache m @ buf\<rparr>))
       (bnd (gets at_cache) (\<lambda>strCache.
          if contains strCache szWait then ret (Inr True)
          else if contains strCache (bytes_of ''ERROR:'') then ret (Inr False)
          else bnd (gets gettimeofday) (\<lambda>now.
            if tv_sec (timersub now start) > nTimeout then ret (Inr False) else ret (Inl ())))))"

definition WaitATResponse :: "string \<Rightarrow> int \<Rightarrow> bool \<Rightarrow> ('z, bool) mprog" where
  "WaitATResponse szWait nTimeout bClear =
     thn (if bClear then set_cache [] else ret ())
       (thn (atp (TCPPort_SetTimeOut (wrap32 (nTimeout * 1000000))))
         (bnd (gets gettimeofday) (\<lambda>start. loop left (Wait_body (bytes_of szWait) nTimeout start) ())))"

text \<open>\<open>UT_ATPort.Write(text, strlen)\<close>.\<close>

definition AT :: "string \<Rightarrow> ('z, unit) mprog" where
  "AT cmd = thn (atp (TCPPort_Write (bytes_of cmd))) (ret ())"

section \<open>Commands\<close>

definition UT_Reset :: "('z, unit) mprog" where
  "UT_Reset = thn (AT (''AT+CFUN=1,1'' @ crlf)) (thn (WaitATResponse ''OK'' 5 True) (ret ()))"

text \<open>\<open>snprintf(buf, 256, ...)\<close> keeps 255 characters.\<close>

definition logon_text :: "string \<Rightarrow> string \<Rightarrow> string \<Rightarrow> string \<Rightarrow> string" where
  "logon_text apn ip user password =
     take 255 (''AT+CGDCONT=10,\"IP\",\"'' @ apn @ ''\",\"'' @ ip @ ''\",0,0,\"'' @ user @ ''\",\"'' @ password @ ''\"'' @ crlf)"

definition LogonIP :: "('z, bool) mprog" where
  "LogonIP =
     thn (sleep 1)
       (bnd (gets conf_text) (\<lambda>f.
        bnd (of_opt (GetAPN f)) (\<lambda>apn.
        bnd (of_opt (GetIP f)) (\<lambda>ip.
        bnd (of_opt (GetUserName f)) (\<lambda>user.
        bnd (of_opt (GetPassword f)) (\<lambda>password.
          attempts 3
            (thn (AT (logon_text apn ip user password))
              (bnd (WaitATResponse ''OK'' 5 True) (\<lambda>ok. ret (if ok then Some True else None))))
            False))))))"

definition CheckContext :: "('z, bool) mprog" where
  "CheckContext =
     thn (sleep 1)
       (attempts 3
         (thn (AT (''AT+CGDCONT?'' @ crlf))
           (thn (set_cache [])
             (bnd (WaitATResponse ''OK'' 5 True) (\<lambda>ok.
                if ok then
                  bnd (gets conf_text) (\<lambda>f.
                  bnd (of_opt (GetUserName f)) (\<lambda>user.
                  bnd (gets at_cache) (\<lambda>strCache.
                    if contains strCache (bytes_of user) then
                      bnd (of_opt (GetIP f)) (\<lambda>ip.
                        ret (Some (contains strCache (bytes_of ip))))
                    else ret (Some False))))
                else ret None))))
         False)"

definition ConnectIP :: "('z, bool) mprog" where
  "ConnectIP =
     thn (set_cache [])
       (attempts 3
         (thn (AT (''AT_IAPPPCONNECT=1,10'' @ crlf))
           (bnd (gets conf_text) (\<lambda>f.
            bnd (of_opt (GetModemDelay f)) (\<lambda>delay.
            bnd (WaitATResponse ''OK'' delay True) (\<lambda>ok.
              if ok then ret (Some True)
              else bnd (gets at_cache) (\<lambda>strCache.
                     if contains strCache (bytes_of ''ERROR:'') then ret (Some False) else ret None))))))
         False)"

text \<open>The length 14 includes the terminating NUL of the 13-character literal.\<close>

definition UT_PowerOn :: "('z, bool) mprog" where
  "UT_PowerOn =
     bnd (gets conf_text) (\<lambda>f.
     bnd (of_opt (GetModemDelay f)) (\<lambda>waitTime.
       attempts 3
         (thn (AT (''AT_IPOINT=1'' @ crlf @ [CHR 0x00]))
           (bnd (WaitATResponse ''OK'' waitTime True) (\<lambda>ok. ret (if ok then Some True else None))))
         False))"

definition AttachNet :: "('z, bool) mprog" where
  "AttachNet =
     attempts 3
       (thn (AT (''AT+CGATT?'' @ crlf))
         (bnd (WaitATResponse ''OK'' 5 True) (\<lambda>ok.
          bnd (gets at_cache) (\<lambda>strCache.
            if ok \<and> contains strCache (bytes_of ''+CGATT: 1,3'') then ret (Some True)
            else thn (sleep 20) (ret None)))))
       False"

definition OpenSignalLevel :: "('z, bool) mprog" where
  "OpenSignalLevel =
     attempts 3
       (thn (AT (''AT_ISIG=1'' @ crlf))
         (bnd (WaitATResponse ''OK'' 5 True) (\<lambda>ok. ret (if ok then Some True else None))))
       False"

definition CloseSignalLevel :: "('z, bool) mprog" where
  "CloseSignalLevel =
     attempts 3
       (thn (AT (''AT_ISIG=0'' @ crlf))
         (bnd (WaitATResponse ''OK'' 5 True) (\<lambda>ok. ret (if ok then Some True else None))))
       False"

section \<open>Signal level\<close>

text \<open>\<open>atof\<close>: white space, sign, digits, fraction, exponent.\<close>

definition frac_val :: "string \<Rightarrow> rat" where
  "frac_val ds = of_int (digits_val ds) / 10 ^ length ds"

definition exp_val :: "string \<Rightarrow> int" where
  "exp_val s =
     (if s \<noteq> [] \<and> (hd s = CHR ''e'' \<or> hd s = CHR ''E'') then
        (let t = tl s;
             neg = (t \<noteq> [] \<and> hd t = CHR ''-'');
             t = (if t \<noteq> [] \<and> (hd t = CHR ''-'' \<or> hd t = CHR ''+'') then tl t else t);
             n = digits_val (takeWhile is_digit t)
         in if neg then - n else n)
      else 0)"

definition atof :: "string \<Rightarrow> rat" where
  "atof s0 =
     (let s = dropWhile is_space s0;
          neg = (s \<noteq> [] \<and> hd s = CHR ''-'');
          s = (if s \<noteq> [] \<and> (hd s = CHR ''-'' \<or> hd s = CHR ''+'') then tl s else s);
          ip = takeWhile is_digit s;
          s = dropWhile is_digit s;
          fp = (if s \<noteq> [] \<and> hd s = CHR ''.'' then takeWhile is_digit (tl s) else []);
          s = (if s \<noteq> [] \<and> hd s = CHR ''.'' then dropWhile is_digit (tl s) else s);
          m = of_int (digits_val ip) + frac_val fp;
          e = (if ip = [] \<and> fp = [] then 0 else exp_val s);
          v = (if 0 \<le> e then m * 10 ^ nat e else m / 10 ^ nat (- e))
      in if neg then - v else v)"

text \<open>
  The text after \<open>_ISIG:\<close> and the rest of the cache: \<open>substr(pos + 6, end)\<close> takes \<open>end\<close> characters, and
  both calls take everything when no newline follows.
\<close>

definition signal_text :: "byte list \<Rightarrow> (byte list \<times> byte list) option" where
  "signal_text strCache =
     (case find_sub (bytes_of ''_ISIG:'') strCache of
        None \<Rightarrow> None
      | Some pos \<Rightarrow>
          (case find_sub (bytes_of [newline]) (drop (pos + 6) strCache) of
             Some e \<Rightarrow> let stop = pos + 6 + e in Some (take stop (drop (pos + 6) strCache), drop stop strCache)
           | None \<Rightarrow> Some (drop (pos + 6) strCache, [])))"

definition text_of :: "byte list \<Rightarrow> string" where
  "text_of bs = map (\<lambda>b. char_of (unat b)) bs"

definition GetSignalLevel :: "('z, rat) mprog" where
  "GetSignalLevel =
     bnd (WaitATResponse ''_ISIG:'' 10 False) (\<lambda>got.
       if got then
         bnd (WaitATResponse [newline] 1 False) (\<lambda>got.
           if got then
             bnd (gets at_cache) (\<lambda>strCache.
             bnd (of_opt (signal_text strCache)) (\<lambda>(Level, rest).
             thn (set_cache rest) (ret (atof (cstr (text_of Level))))))
           else ret 0)
       else ret 0)"

definition signal_body :: "int \<Rightarrow> int \<Rightarrow> timeval \<Rightarrow> unit \<Rightarrow> ('z, unit + bool) mprog" where
  "signal_body minSIG maxCheckTime start u =
     bnd GetSignalLevel (\<lambda>level.
       if \<not> (level < of_int minSIG) then ret (Inr True)
       else
         thn (set_cache [])
           (bnd (gets gettimeofday) (\<lambda>now.
             if tv_sec (timersub now start) < maxCheckTime then ret (Inl ()) else ret (Inr False))))"

definition CheckSignalLevel :: "('z, bool) mprog" where
  "CheckSignalLevel =
     bnd (gets conf_text) (\<lambda>f.
     bnd (of_opt (GetMinSignalLevel f)) (\<lambda>minSIG.
     bnd (of_opt (GetModemDelay f)) (\<lambda>maxCheckTime.
     bnd OpenSignalLevel (\<lambda>opened.
       if \<not> opened then ret False
       else
         bnd (gets gettimeofday) (\<lambda>start.
         bnd (loop left (signal_body minSIG maxCheckTime start) ()) (\<lambda>r.
         bnd CloseSignalLevel (\<lambda>closed. ret (if \<not> closed then False else r))))))))"

section \<open>Power\<close>

text \<open>The first loop of \<open>PowerOn\<close>: \<open>False\<close> when the three tries are used up.\<close>

definition open_at_port :: "('z, bool) mprog" where
  "open_at_port =
     attempts 3 (bnd (atp TCPPort_Open0) (\<lambda>v. if v \<noteq> 0 then thn (sleep 2) (ret None) else ret (Some True))) False"

text \<open>Building the connection context.\<close>

definition open_context :: "('z, bool) mprog" where
  "open_context =
     bnd UT_PowerOn (\<lambda>a. if \<not> a then ret False else
     bnd AttachNet (\<lambda>b. if \<not> b then ret False else
     bnd LogonIP (\<lambda>c. if \<not> c then ret False else CheckContext)))"

text \<open>The branch for a modem that is not open: \<open>None\<close> is \<open>break\<close>, otherwise the value of \<open>bOpenContext\<close>.\<close>

definition first_routine :: "bool \<Rightarrow> bool \<Rightarrow> ('z, bool option) mprog" where
  "first_routine bModemOnFirstTime bOpenContext =
     thn (if bModemOnFirstTime then thn (AT (''ATE0'' @ crlf)) (thn (WaitATResponse ''OK'' 5 True) (ret ())) else ret ())
       (bnd CheckSignalLevel (\<lambda>sig.
         if \<not> sig then ret None
         else
           bnd (if bModemOnFirstTime then
                  bnd CheckContext (\<lambda>c.
                    if \<not> c then bnd CheckSignalLevel (\<lambda>sig. ret (if \<not> sig then None else Some bOpenContext))
                    else ret (Some False))
                else ret (Some bOpenContext)) (\<lambda>x.
             case x of
               None \<Rightarrow> ret None
             | Some oc \<Rightarrow>
                 bnd (if oc then open_context else ret True) (\<lambda>ok.
                   if \<not> ok then ret None
                   else bnd CheckSignalLevel (\<lambda>sig. ret (if \<not> sig then None else Some oc))))))"

text \<open>The tail of the loop body: \<open>True\<close> is the successful \<open>return\<close>, \<open>False\<close> is \<open>break\<close>.\<close>

definition connect_routine :: "('z, bool) mprog" where
  "connect_routine =
     thn (sleep 5)
       (bnd ConnectIP (\<lambda>ok.
         if \<not> ok then ret False
         else
           thn (modify (bModemOpen_update (\<lambda>_. True)))
             (thn (atp TCPPort_Close)
               (thn (modify (bPowerOff_update (\<lambda>_. False))) (ret True)))))"

definition PowerOn_body :: "bool \<times> bool \<Rightarrow> ('z, (bool \<times> bool) + bool) mprog" where
  "PowerOn_body v =
     (case v of
        (bModemOnFirstTime, bOpenContext) \<Rightarrow>
          bnd (gets bModemOpen) (\<lambda>opened.
            if \<not> opened then
              bnd (first_routine bModemOnFirstTime bOpenContext) (\<lambda>x.
                case x of
                  None \<Rightarrow> ret (Inr False)
                | Some _ \<Rightarrow> bnd connect_routine (\<lambda>b. ret (Inr b)))
            else
              bnd CheckContext (\<lambda>c.
                if \<not> c then
                  thn (modify (bModemOpen_update (\<lambda>_. False))) (ret (Inl (False, bOpenContext)))
                else bnd connect_routine (\<lambda>b. ret (Inr b)))))"

definition PowerOn :: "('z, unit) mprog" where
  "PowerOn =
     thn (modify (bPowerOff_update (\<lambda>_. True)))
       (catch
         (bnd open_at_port (\<lambda>ok.
           if \<not> ok then ret ()
           else
             thn (sleep 5)
               (bnd (loop left PowerOn_body (True, True)) (\<lambda>connected.
                 if connected then ret ()
                 else
                   thn UT_Reset (thn (atp TCPPort_Close) (modify (bModemOpen_update (\<lambda>_. False))))))))
         (\<lambda>e. thn (modify (bModemOpen_update (\<lambda>_. False))) (atp TCPPort_Close)))"

definition IsPowerOff :: "'z modem_scheme \<Rightarrow> bool" where
  "IsPowerOff m = bPowerOff m"

text \<open>The \<open>try\<close> block of \<open>PowerOff\<close>: whether the modem confirmed, \<open>None\<close> on an exception.\<close>

definition off_try :: "('z, bool option) mprog" where
  "off_try =
     catch (thn (AT (''AT_IAPPPCONNECT=0'' @ crlf @ [CHR 0x00]))
       (bnd (WaitATResponse ''OK'' 5 True) (\<lambda>ok. ret (Some ok)))) (\<lambda>e. ret None)"

text \<open>
  The inner loop of \<open>PowerOff\<close>.  The counter is shared with the outer loop: the result is its value when an
  exception left the inner loop, and \<open>None\<close> when the inner loop ended.
\<close>

fun off_inner :: "nat \<Rightarrow> ('z, nat option) mprog" where
  "off_inner retry =
     bnd off_try (\<lambda>x.
       case x of
         None \<Rightarrow> ret (Some retry)
       | Some ok \<Rightarrow>
           if ok then ret None
           else if retry - 1 = 0 then ret None
           else off_inner (retry - 1))"

declare off_inner.simps [simp del]

text \<open>The outer loop; \<open>n\<close> bounds its rounds and is the initial value of the counter, which decreases in every round.\<close>

fun off_outer :: "nat \<Rightarrow> nat \<Rightarrow> ('z, unit) mprog" where
  "off_outer 0 retry = ret ()"
| "off_outer (Suc n) retry =
     thn (atp TCPPort_Open0)
       (bnd (off_inner retry) (\<lambda>x.
         case x of
           None \<Rightarrow> ret ()
         | Some retry' \<Rightarrow> if retry' - 1 = 0 then ret () else off_outer n (retry' - 1)))"

definition PowerOff :: "('z, unit) mprog" where
  "PowerOff =
     thn (modify (bPowerOff_update (\<lambda>_. True)))
       (thn (off_outer 5 5) (atp TCPPort_Close))"

definition Modem_init :: "'z modem_scheme \<Rightarrow> 'z modem_scheme option" where
  "Modem_init m =
     (case GetModemIP (conf_text m) of
        None \<Rightarrow> None
      | Some ip \<Rightarrow>
          Some (m\<lparr>bPowerOff := True,
                  UT_ATPort := SetRemotePort 9998 (SetRemoteHost ip (UT_ATPort m)),
                  bModemOpen := False\<rparr>))"


section \<open>What every command keeps\<close>

text \<open>
  \<open>mod_le\<close>: behaviour of the environment is consumed, the trace and the interference grow, the command
  port stays consistent; files, power state and account are untouched.
\<close>

definition mod_le :: "'z modem_scheme \<Rightarrow> 'z modem_scheme \<Rightarrow> bool" where
  "mod_le m m' =
     (left m' \<le> left m \<and> (\<exists>evs. trace m' = trace m @ evs) \<and> consumed m m' \<and>
      files m' = files m \<and> bPowerOff m' = bPowerOff m \<and> bModemOpen m' = bModemOpen m \<and>
      strAPN m' = strAPN m \<and> strUserName m' = strUserName m \<and> strIP m' = strIP m \<and> strPassword m' = strPassword m \<and>
      modem.more m' = modem.more m \<and> (tcp_ok (UT_ATPort m) \<longrightarrow> tcp_ok (UT_ATPort m')))"

lemma preorder_mod_le [simp, intro]: "preorder_rel mod_le"
  by (auto simp: preorder_rel_def mod_le_def reflp_def transp_def intro: consumed_trans)

lemma quiet_mod_le: "quiet m m' \<Longrightarrow> mod_le m m'"
  by (cases m; cases m') (auto simp: quiet_def mod_le_def consumed_def left_def)

lemma moves_mod_quiet: "moves quiet m \<Longrightarrow> moves mod_le m"
  by (auto simp: moves_def quiet_mod_le)

lemma moves_mod_posix [hoare_rules]: "moves mod_le (sleep n)" "moves mod_le (usleep n)"
  by (simp_all add: moves_mod_quiet hoare_rules)

lemma moves_mod_atp: "moves obj_le m \<Longrightarrow> moves (preserves tcp_inv) m \<Longrightarrow> moves mod_le (atp m)"
proof (rule movesI)
  fix s :: "'a modem_scheme"
  assume "moves obj_le m" "moves (preserves tcp_inv) m"
  moreover obtain r s' p where "m (s, UT_ATPort s) = (r, (s', p))" by (metis prod.collapse)
  ultimately have "quiet s s'" "tcp_ok (UT_ATPort s) \<longrightarrow> tcp_ok p"
    by (auto dest!: movesD simp: obj_le_def preserves_def tcp_inv_def)
  with \<open>m (s, UT_ATPort s) = (r, (s', p))\<close> show "mod_le s (snd (atp m s))"
    by (cases s; cases s') (auto simp: atp_def on_obj_def quiet_def mod_le_def consumed_def left_def)
qed

lemma moves_mod_cache [hoare_rules]:
  "moves mod_le (set_cache c)" "moves mod_le (modify (\<lambda>m. m\<lparr>at_cache := f m\<rparr>))"
  unfolding set_cache_def by (auto intro!: moves_modify consumed_eq simp: mod_le_def left_def)

lemma moves_mod_port [hoare_rules]:
  "moves mod_le (atp TCPPort_Open0)" "moves mod_le (atp TCPPort_Close)" "moves mod_le (atp (TCPPort_Read n))"
  "moves mod_le (atp (TCPPort_Write bs))" "moves mod_le (atp (TCPPort_SetTimeOut t))"
  by (intro moves_mod_atp hoare_rules)+

lemma moves_mod_Wait [hoare_rules]: "moves mod_le (WaitATResponse w t b)"
  unfolding WaitATResponse_def Wait_body_def by (intro preorder_mod_le hoare_rules)

lemma moves_mod_AT [hoare_rules]: "moves mod_le (AT c)"
  unfolding AT_def by (intro preorder_mod_le hoare_rules)

lemma moves_mod_commands [hoare_rules]:
  "moves mod_le UT_Reset" "moves mod_le LogonIP" "moves mod_le CheckContext" "moves mod_le ConnectIP"
  "moves mod_le UT_PowerOn" "moves mod_le AttachNet" "moves mod_le OpenSignalLevel" "moves mod_le CloseSignalLevel"
  unfolding UT_Reset_def LogonIP_def CheckContext_def ConnectIP_def UT_PowerOn_def AttachNet_def OpenSignalLevel_def
    CloseSignalLevel_def
  by (intro preorder_mod_le hoare_rules)+

lemma moves_mod_GetSignalLevel [hoare_rules]: "moves mod_le GetSignalLevel"
  unfolding GetSignalLevel_def case_prod_beta by (intro preorder_mod_le hoare_rules)

lemma moves_mod_CheckSignalLevel [hoare_rules]: "moves mod_le CheckSignalLevel"
  unfolding CheckSignalLevel_def signal_body_def by (intro preorder_mod_le hoare_rules)

lemma moves_mod_first_routine [hoare_rules]: "moves mod_le (first_routine a b)"
  unfolding first_routine_def open_context_def by (intro preorder_mod_le hoare_rules)

lemma moves_mod_open_at_port [hoare_rules]: "moves mod_le open_at_port"
  unfolding open_at_port_def by (intro preorder_mod_le hoare_rules)

lemma mod_le_left: "moves mod_le m \<Longrightarrow> m s = (r, s') \<Longrightarrow> left s' \<le> left s"
  by (auto dest!: movesD simp: mod_le_def)

section \<open>Every loop ends\<close>

text \<open>Each round of the three loops consumes a reply, so the bounds of \<open>loop\<close> are never reached.\<close>

lemma atp_Read_left: "atp (TCPPort_Read n) m = (Val bs, m') \<Longrightarrow> left m' < left m"
  by (auto simp: atp_def on_obj_def left_def split: prod.splits dest!: Read_left)

lemma consumes_Wait: "consumes left (Wait_body w t start)"
  by (auto simp: consumes_def Wait_body_def bnd_eq_Val thn_def left_def gets_def modify_def ret_def
      dest!: atp_Read_left split: if_splits)

lemma loop_first_left:
  assumes "loop left body x m = (Val v, m')" "\<And>x. moves mod_le (body x)"
    and "\<And>r m1. body x m = (Val r, m1) \<Longrightarrow> left m1 < left m"
  shows "left m' < left m"
proof -
  obtain r m1 where "body x m = (Val r, m1)"
      "(case r of Inl x' \<Rightarrow> loopN (left m) body x' | Inr v \<Rightarrow> ret v) m1 = (Val v, m')"
    using assms(1) by (auto simp: loop_def bnd_eq_Val)
  moreover have "moves mod_le (case r of Inl x' \<Rightarrow> loopN (left m) body x' | Inr v \<Rightarrow> ret v)"
    using moves_loopN [OF preorder_mod_le assms(2)] by (auto split: sum.split intro: hoare_rules)
  ultimately show ?thesis using assms(3) mod_le_left by (meson order.strict_trans2 le_less_trans)
qed

lemma bnd_left1:
  assumes "bnd m f s = (Val v, s')" "\<And>x t. m s = (Val x, t) \<Longrightarrow> left t < left s" "\<And>x. moves mod_le (f x)"
  shows "left s' < left s"
proof -
  obtain x t where "m s = (Val x, t)" "f x t = (Val v, s')" using assms(1) by (auto simp: bnd_eq_Val)
  with assms(2) mod_le_left [OF assms(3)] show ?thesis by (meson le_less_trans)
qed

lemma bnd_left2:
  assumes "bnd m f s = (Val v, s')" "moves mod_le m" "\<And>x t. f x t = (Val v, s') \<Longrightarrow> left s' < left t"
  shows "left s' < left s"
proof -
  obtain x t where "m s = (Val x, t)" "f x t = (Val v, s')" using assms(1) by (auto simp: bnd_eq_Val)
  with assms(3) mod_le_left [OF assms(2)] show ?thesis by (meson less_le_trans)
qed

lemma Wait_left: "WaitATResponse w t b m = (Val v, m') \<Longrightarrow> left m' < left m"
  unfolding WaitATResponse_def thn_def
proof (elim bnd_left2)
  fix start m1
  assume "loop left (Wait_body (bytes_of w) t start) () m1 = (Val v, m')"
  then show "left m' < left m1"
  proof (rule loop_first_left)
    show "moves mod_le (Wait_body (bytes_of w) t start x)" for x
      unfolding Wait_body_def by (intro preorder_mod_le hoare_rules)
    show "Wait_body (bytes_of w) t start () m1 = (Val r, m2) \<Longrightarrow> left m2 < left m1" for r m2
      unfolding Wait_body_def by (elim bnd_left1) (auto dest: atp_Read_left intro!: preorder_mod_le hoare_rules)
  qed
qed (intro preorder_mod_le hoare_rules)+

lemma GetSignalLevel_left: "GetSignalLevel m = (Val v, m') \<Longrightarrow> left m' < left m"
  unfolding GetSignalLevel_def case_prod_beta
  by (elim bnd_left1) (auto dest: Wait_left intro!: preorder_mod_le hoare_rules)

lemma consumes_signal: "consumes left (signal_body lo tm start)"
  unfolding consumes_def signal_body_def
  by (auto elim!: bnd_left1 dest: GetSignalLevel_left intro!: preorder_mod_le hoare_rules)

lemma sleep_left: "sleep n m = (Val v, m') \<Longrightarrow> left m' < left m"
  by (auto simp: sleep_def bnd_eq_Val modify_def left_def dest!: syscall_Val)

lemma CheckContext_left: "CheckContext m = (Val v, m') \<Longrightarrow> left m' < left m"
  unfolding CheckContext_def thn_def
  by (elim bnd_left1) (auto dest: sleep_left intro!: preorder_mod_le hoare_rules)

lemma consumes_PowerOn: "consumes left PowerOn_body"
  by (auto simp: consumes_def PowerOn_body_def bnd_eq_Val thn_def gets_def ret_def modify_def left_def
      split: if_splits option.splits dest: CheckContext_left)

section \<open>What was sent\<close>

definition sent :: "'z world_scheme \<Rightarrow> byte list list" where
  "sent w = concat (map (\<lambda>ev. case ev of EvSend fd bs \<Rightarrow> [bs] | _ \<Rightarrow> []) (trace w))"

text \<open>\<open>sends C k\<close>: a call makes at most \<open>k\<close> sends, of texts in \<open>C\<close>.\<close>

definition sends :: "byte list set \<Rightarrow> nat \<Rightarrow> 'z world_scheme \<Rightarrow> 'z world_scheme \<Rightarrow> bool" where
  "sends C k w w' = (\<exists>bss. sent w' = sent w @ bss \<and> length bss \<le> k \<and> set bss \<subseteq> C)"

lemma preorder_sends0 [simp, intro]: "preorder_rel (sends C 0)"
  by (auto simp: preorder_rel_def sends_def reflp_def transp_def)

lemma sends_trans: "sends C k w w' \<Longrightarrow> sends C l w' w'' \<Longrightarrow> sends C (k + l) w w''"
  by (auto simp: sends_def)

lemma sends_mono: "sends C k w w' \<Longrightarrow> k \<le> l \<Longrightarrow> sends C l w w'"
  by (auto simp: sends_def)

lemma sends0_iff: "sends C 0 w w' \<longleftrightarrow> sent w' = sent w"
  by (auto simp: sends_def)

lemma moves_sends_atp:
  assumes "moves (\<lambda>s s'. sends C k (fst s) (fst s')) m"
  shows "moves (sends C k) (atp m)"
proof (rule movesI)
  fix s :: "'a modem_scheme"
  obtain r s' p where run: "m (s, UT_ATPort s) = (r, (s', p))" by (metis prod.collapse)
  with movesD [OF assms run] show "sends C k s (snd (atp m s))"
    by (simp add: atp_def on_obj_def sends_def sent_def)
qed

fun is_send :: "event \<Rightarrow> bool" where
  "is_send (EvSend fd bs) = True"
| "is_send ev = False"

lemma sent_append: "\<not> is_send ev \<Longrightarrow> trace w' = trace w @ [ev] \<Longrightarrow> sends C 0 w w'"
  by (cases ev) (simp_all add: sends_def sent_def)

lemma moves_sends_sys:
  assumes "\<not> is_send ev"
  shows "moves (sends C 0 :: 'z world_scheme \<Rightarrow> _) (syscall ev)" "moves (sends C 0 :: 'z world_scheme \<Rightarrow> _) (emit ev)"
proof -
  show "moves (sends C 0 :: 'z world_scheme \<Rightarrow> _) (emit ev)"
    unfolding emit_def by (intro moves_modify sent_append [OF assms]) simp
  show "moves (sends C 0 :: 'z world_scheme \<Rightarrow> _) (syscall ev)"
  proof (rule movesI)
    fix s :: "'z world_scheme"
    show "sends C 0 s (snd (syscall ev s))"
    proof (cases "script s")
      case Nil
      then show ?thesis by (simp add: syscall_def sends_def)
    next
      case (Cons r rs)
      then show ?thesis by (intro sent_append [OF assms]) (simp add: syscall_def)
    qed
  qed
qed

lemma moves_sends_basic:
  "moves (\<lambda>s s'. sends C 0 (fst s) (fst s')) (getp f)" "moves (\<lambda>s s'. sends C 0 (fst s) (fst s')) (setp g)"
  "moves (\<lambda>s s'. sends C 0 (fst s) (fst s')) touch"
  by (auto simp: moves_def getp_def setp_def touch_def gets_def modify_def sends_def split: prod.splits)

lemmas sends_intros = preorder_fst preorder_sends0 moves_bnd moves_thn moves_if moves_ret moves_throw moves_fst_outer
  moves_sends_sys moves_sends_basic

lemma moves_sends_SetTimeOut: "moves (\<lambda>s s'. sends C 0 (fst s) (fst s')) (TCPPort_SetTimeOut t)"
  unfolding TCPPort_SetTimeOut_def by (intro sends_intros) auto

lemma moves_sends_Close: "moves (\<lambda>s s'. sends C 0 (fst s) (fst s')) TCPPort_Close"
  unfolding TCPPort_Close_def by (intro sends_intros) auto

lemma moves_sends_Read: "moves (\<lambda>s s'. sends C 0 (fst s) (fst s')) (TCPPort_Read n)"
  unfolding TCPPort_Read_def Let_def by (intro sends_intros moves_sends_Close) auto

lemma moves_sends_connect_loop: "moves (\<lambda>s s'. sends C 0 (fst s) (fst s')) (connect_loop n)"
  by (induction n) (auto simp: try_connect_def intro!: sends_intros moves_sends_SetTimeOut)

lemma moves_sends_Open0: "moves (\<lambda>s s'. sends C 0 (fst s) (fst s')) TCPPort_Open0"
  unfolding TCPPort_Open0_def TCPPort_Open_def TCPPort_Connect_def
  by (intro sends_intros moves_sends_SetTimeOut moves_sends_Close moves_sends_connect_loop) auto

lemma moves_sends_port [hoare_rules]:
  "moves (sends C 0) (atp (TCPPort_Read n))" "moves (sends C 0) (atp TCPPort_Close)" "moves (sends C 0) (atp TCPPort_Open0)"
  "moves (sends C 0) (atp (TCPPort_SetTimeOut t))"
  by (rule moves_sends_atp, rule moves_sends_Read moves_sends_Close moves_sends_Open0 moves_sends_SetTimeOut)+

lemma moves_sends_cache [hoare_rules]:
  "moves (sends C 0) (set_cache c)" "moves (sends C 0) (modify (\<lambda>m. m\<lparr>at_cache := f m\<rparr>))"
  unfolding set_cache_def by (auto intro!: moves_modify simp: sends_def sent_def)

lemma moves_sends_Wait [hoare_rules]: "moves (sends C 0) (WaitATResponse w t b)"
  unfolding WaitATResponse_def Wait_body_def by (intro preorder_sends0 hoare_rules)

lemma moves_sends_AT: "moves (sends {bytes_of c} 1) (AT c)"
  by (auto simp: moves_def AT_def TCPPort_Write_def atp_def on_obj_def run_defs tcp_defs sends_def sent_def
      split: prod.splits if_splits list.splits)

lemma AT_sent: "AT c m = (Val u, m') \<Longrightarrow> sent m' = sent m @ [bytes_of c]"
  by (auto simp: AT_def TCPPort_Write_def atp_def on_obj_def run_defs tcp_defs sent_def
      split: prod.splits if_splits list.splits)

text \<open>A positive answer is in the cache.\<close>

lemma Wait_True:
  assumes "WaitATResponse w t b m = (Val True, m')"
  shows "contains (at_cache m') (bytes_of w) \<and> sent m' = sent m"
proof -
  obtain m1 start where "loop left (Wait_body (bytes_of w) t start) () m1 = (Val True, m')"
    using assms by (auto simp: WaitATResponse_def thn_def bnd_eq_Val gets_def)
  moreover have "hoare (\<lambda>_. True) (loop left (Wait_body (bytes_of w) t start) ())
      (\<lambda>v m. v \<longrightarrow> contains (at_cache m) (bytes_of w)) (\<lambda>_ _. True)"
    by (rule hoare_loop [where I = "\<lambda>_ _. True"], rule hoareI)
      (auto simp: Wait_body_def bnd_eq_Val thn_def gets_def ret_def modify_def split: if_splits)
  ultimately show ?thesis
    using movesD [OF moves_sends_Wait [of "{}"] assms] by (auto dest: hoare_ValD simp: sends0_iff)
qed

text \<open>The last command sent was the connection request, and the answer to it contains \<open>OK\<close>.\<close>

definition ppp_up :: "'z modem_scheme \<Rightarrow> bool" where
  "ppp_up m =
     (sent m \<noteq> [] \<and> last (sent m) = bytes_of (''AT_IAPPPCONNECT=1,10'' @ crlf) \<and> contains (at_cache m) (bytes_of ''OK''))"

lemma ConnectIP_up: "hoare (\<lambda>_. True) ConnectIP (\<lambda>ok m. ok \<longrightarrow> ppp_up m) (\<lambda>_ _. True)"
  unfolding ConnectIP_def thn_def
  by (rule hoare_bnd [where R = "\<lambda>_ _. True"], simp add: hoare_def split: prod.splits outcome.splits,
      rule hoare_attempts, rule hoareI)
    (auto simp: bnd_eq_Val ret_def gets_def of_opt_def ppp_up_def dest!: AT_sent Wait_True
      split: if_splits option.splits)

section \<open>Power on\<close>

text \<open>Between the calls of \<open>PowerOn\<close> the modem is reported off; the port is consistent.\<close>

lemma sent_update [simp]:
  "sent (bPowerOff_update f m) = sent m" "sent (bModemOpen_update f m) = sent m" "sent (at_cache_update g m) = sent m"
  by (simp_all add: sent_def)

definition off_ok :: "'z modem_scheme \<Rightarrow> bool" where
  "off_ok m = (bPowerOff m \<and> tcp_ok (UT_ATPort m))"

definition on_post :: "'z modem_scheme \<Rightarrow> bool" where
  "on_post m =
     (tcp_ok (UT_ATPort m) \<and> \<not> bConnected (UT_ATPort m) \<and> (bPowerOff m \<or> bModemOpen m \<and> ppp_up m))"

lemma hoare_off_ok: "moves mod_le m \<Longrightarrow> hoare off_ok m (\<lambda>_. off_ok) (\<lambda>_. off_ok)"
  by (rule hoareI) (auto dest!: movesD simp: mod_le_def off_ok_def)

lemma hoare_off_open: "hoare off_ok (modify (bModemOpen_update f)) (\<lambda>_. off_ok) (\<lambda>_. off_ok)"
  by (rule hoareI) (auto simp: modify_def off_ok_def)

lemma atp_Close:
  "tcp_ok (UT_ATPort m) \<Longrightarrow> \<exists>m'. atp TCPPort_Close m = (Val (), m') \<and> bPowerOff m' = bPowerOff m \<and>
     bModemOpen m' = bModemOpen m \<and> at_cache m' = at_cache m \<and> sent m' = sent m \<and>
     tcp_ok (UT_ATPort m') \<and> \<not> bConnected (UT_ATPort m')"
  by (auto simp: atp_def on_obj_def TCPPort_Close_def run_defs tcp_defs tcp_ok_def sent_def split: prod.splits)

lemma hoare_Close: "hoare off_ok (atp TCPPort_Close) (\<lambda>_ m. off_ok m \<and> on_post m) E"
proof (rule hoareI)
  fix s s' :: "'a modem_scheme" and x
  assume "off_ok s" "atp TCPPort_Close s = (Val x, s')"
  with atp_Close [of s] show "off_ok s' \<and> on_post s'" by (auto simp: off_ok_def on_post_def)
next
  fix s s' :: "'a modem_scheme" and e
  assume "off_ok s" "atp TCPPort_Close s = (Throw e, s')"
  with atp_Close [of s] show "E e s'" by (auto simp: off_ok_def)
qed

text \<open>\<open>True\<close>: the connection was reported; \<open>False\<close>: the modem is still off.\<close>

definition routine_post :: "bool \<Rightarrow> 'z modem_scheme \<Rightarrow> bool" where
  "routine_post b m = (if b then on_post m else off_ok m)"

lemma routine_post_simps [simp]: "routine_post True = on_post" "routine_post False = off_ok"
  by (auto simp: routine_post_def fun_eq_iff)

lemma ConnectIP_off: "hoare off_ok ConnectIP (\<lambda>ok m. off_ok m \<and> (ok \<longrightarrow> ppp_up m)) (\<lambda>_. off_ok)"
  using hoare_off_ok [OF moves_mod_commands(4)] ConnectIP_up
  by (auto intro!: hoareI dest: hoare_ValD hoare_ThrowD)

lemma hoare_connect: "hoare (off_ok :: 'z modem_scheme \<Rightarrow> bool) connect_routine routine_post (\<lambda>_. off_ok)"
  unfolding connect_routine_def thn_def
proof (rule hoare_bnd [OF hoare_off_ok], rule hoare_rules, rule hoare_bnd [OF ConnectIP_off], rule hoare_if, simp add: hoare_ret)
  fix ok
  assume ok: "\<not> \<not> ok"
  let ?up = "\<lambda>m :: 'z modem_scheme. off_ok m \<and> bModemOpen m \<and> ppp_up m"
  have close: "hoare ?up (atp TCPPort_Close) (\<lambda>_ m. bModemOpen m \<and> ppp_up m \<and> on_post m) (\<lambda>_. off_ok)"
  proof (rule hoareI)
    fix s s' :: "'z modem_scheme" and x
    assume "?up s" "atp TCPPort_Close s = (Val x, s')"
    with atp_Close [of s] show "bModemOpen s' \<and> ppp_up s' \<and> on_post s'" by (auto simp: off_ok_def on_post_def ppp_up_def)
  qed (use atp_Close in \<open>fastforce simp: off_ok_def\<close>)
  show "hoare (\<lambda>m :: 'z modem_scheme. off_ok m \<and> (ok \<longrightarrow> ppp_up m))
      (bnd (modify (bModemOpen_update (\<lambda>_. True))) (\<lambda>_. bnd (atp TCPPort_Close)
         (\<lambda>_. bnd (modify (bPowerOff_update (\<lambda>_. False))) (\<lambda>_. ret True)))) routine_post (\<lambda>_. off_ok)"
    by (rule hoare_bnd [where R = "\<lambda>_. ?up"], rule hoare_modify, use ok in \<open>simp add: off_ok_def ppp_up_def\<close>,
        rule hoare_bnd [OF close], rule hoare_bnd [where R = "\<lambda>_. on_post"], rule hoare_modify)
      (auto simp: on_post_def ppp_up_def intro: hoare_ret)
qed

lemma hoare_PowerOn_body:
  "hoare off_ok (PowerOn_body v) (\<lambda>r. case r of Inl _ \<Rightarrow> off_ok | Inr b \<Rightarrow> routine_post b) (\<lambda>_. off_ok)"
proof (cases v)
  case (Pair a b)
  have c: "hoare off_ok (bnd connect_routine (\<lambda>b. ret (Inr b)))
      (\<lambda>r. case r of Inl _ \<Rightarrow> off_ok | Inr b \<Rightarrow> routine_post b) (\<lambda>_. off_ok)"
    by (rule hoare_bnd [OF hoare_connect]) (simp add: hoare_ret)
  show ?thesis
    unfolding PowerOn_body_def Pair prod.case thn_def
    by (rule hoare_bnd [OF hoare_off_ok], intro preorder_mod_le hoare_rules)
      (auto intro!: hoare_bnd [OF hoare_off_ok] hoare_bnd [OF hoare_off_open] c hoare_ret
        preorder_mod_le hoare_rules split: option.split)
qed

lemma hoare_PowerOn_loop: "hoare off_ok (loop left PowerOn_body v) routine_post (\<lambda>_. off_ok)"
  by (rule hoare_loop [OF hoare_PowerOn_body])

lemma atp_Open_idle:
  "atp TCPPort_Open0 m = (Val v, m') \<Longrightarrow> tcp_ok (UT_ATPort m) \<Longrightarrow> v \<noteq> 0 \<Longrightarrow> \<not> bConnected (UT_ATPort m')"
  by (auto simp: atp_def on_obj_def TCPPort_Open0_def prog_simps tcp_inv_def connect_post_def idle_def
      split: prod.splits if_splits dest!: trackD [OF track_Open])

lemma sleep_port: "sleep n m = (Val u, m') \<Longrightarrow> UT_ATPort m' = UT_ATPort m"
  by (auto simp: sleep_def bnd_eq_Val modify_def syscall_eq_Val)

lemma open_at_port_post: "hoare (off_ok :: 'z modem_scheme \<Rightarrow> bool) open_at_port (\<lambda>ok m. off_ok m \<and> (\<not> ok \<longrightarrow> on_post m)) (\<lambda>_. off_ok)"
proof -
  let ?body = "bnd (atp TCPPort_Open0) (\<lambda>v. if v \<noteq> 0 then thn (sleep 2) (ret None) else ret (Some True))"
  have keep: "hoare (off_ok :: 'z modem_scheme \<Rightarrow> bool) ?body (\<lambda>_. off_ok) (\<lambda>_. off_ok)"
    by (intro hoare_off_ok preorder_mod_le hoare_rules)
  have "hoare (off_ok :: 'z modem_scheme \<Rightarrow> bool) ?body (\<lambda>x. case x of Some ok \<Rightarrow> (\<lambda>m. off_ok m \<and> (\<not> ok \<longrightarrow> on_post m))
      | None \<Rightarrow> (\<lambda>m. off_ok m \<and> on_post m)) (\<lambda>_. off_ok)"
  proof (rule hoareI)
    fix s s' :: "'z modem_scheme" and x
    assume s: "off_ok s" "?body s = (Val x, s')"
    then have "off_ok s'" by (rule hoare_ValD [OF keep, rotated])
    with s show "(case x of Some ok \<Rightarrow> (\<lambda>m. off_ok m \<and> (\<not> ok \<longrightarrow> on_post m)) | None \<Rightarrow> (\<lambda>m. off_ok m \<and> on_post m)) s'"
      by (auto simp: bnd_eq_Val thn_def ret_def on_post_def off_ok_def split: if_splits dest!: sleep_port atp_Open_idle)
  qed (rule hoare_ThrowD [OF keep])
  then show ?thesis
    unfolding open_at_port_def numeral_3_eq_3 by (rule hoare_attempts_Suc) auto
qed

lemma no_throw_Close [simp]: "no_throw (atp TCPPort_Close)"
  unfolding atp_def TCPPort_Close_def touch_def getp_def setp_def emit_def by (intro no_throw_rules)

lemma no_throw_PowerOn: "no_throw PowerOn"
  unfolding PowerOn_def by (intro no_throw_rules no_throw_Close)

lemma hoare_PowerOn: "hoare (\<lambda>m :: 'z modem_scheme. tcp_ok (UT_ATPort m)) PowerOn (\<lambda>_. on_post) (\<lambda>_ _. False)"
proof -
  have close: "hoare (off_ok :: 'z modem_scheme \<Rightarrow> bool) (atp TCPPort_Close) (\<lambda>_. on_post) E" for E
    by (rule hoare_weaken [OF hoare_Close]) auto
  have reset: "hoare (off_ok :: 'z modem_scheme \<Rightarrow> bool) (thn UT_Reset (thn (atp TCPPort_Close) (modify (bModemOpen_update (\<lambda>_. False)))))
      (\<lambda>_. on_post) (\<lambda>_. off_ok)"
    by (intro hoare_thn [OF hoare_off_ok] hoare_rules hoare_thn [OF hoare_Close] hoare_modify)
      (auto simp: off_ok_def on_post_def)
  have rounds: "hoare (off_ok :: 'z modem_scheme \<Rightarrow> bool) (bnd (loop left PowerOn_body (True, True)) (\<lambda>connected. if connected then ret ()
       else thn UT_Reset (thn (atp TCPPort_Close) (modify (bModemOpen_update (\<lambda>_. False)))))) (\<lambda>_. on_post) (\<lambda>_. off_ok)"
    by (rule hoare_bnd [OF hoare_PowerOn_loop]) (auto intro: hoare_ret reset)
  have "hoare (off_ok :: 'z modem_scheme \<Rightarrow> bool)
     (bnd open_at_port (\<lambda>ok. if \<not> ok then ret () else thn (sleep 5)
        (bnd (loop left PowerOn_body (True, True)) (\<lambda>connected. if connected then ret ()
           else thn UT_Reset (thn (atp TCPPort_Close) (modify (bModemOpen_update (\<lambda>_. False))))))))
     (\<lambda>_. on_post) (\<lambda>_. off_ok)"
  proof (rule hoare_bnd [OF open_at_port_post], rule hoare_if)
    fix ok
    show "\<not> ok \<Longrightarrow> hoare (\<lambda>m :: 'z modem_scheme. off_ok m \<and> (\<not> ok \<longrightarrow> on_post m)) (ret ()) (\<lambda>_. on_post) (\<lambda>_. off_ok)"
      by (rule hoare_ret) simp
  qed (rule hoare_weaken [OF hoare_thn [OF hoare_off_ok rounds]], auto intro: hoare_rules)
  then show ?thesis
    unfolding PowerOn_def
    by (intro hoare_thn [where R = off_ok] hoare_modify hoare_catch [where R = "\<lambda>_. off_ok"]
        close) (auto simp: off_ok_def)
qed

section \<open>Power off\<close>

definition off_cmd :: "byte list" where
  "off_cmd = bytes_of (''AT_IAPPPCONNECT=0'' @ crlf @ [CHR 0x00])"

lemma moves_sends_bnd:
  assumes "moves (sends C k) m" "\<And>x. moves (sends C l) (f x)"
  shows "moves (sends C (k + l)) (bnd m f)"
proof (rule movesI, rule bnd_cases)
  fix s x s' r t
  assume "m s = (Val x, s')" "f x s' = (r, t)"
  then show "sends C (k + l) s t" by (intro sends_trans [OF movesD [OF assms(1)] movesD [OF assms(2)]])
next
  fix s r t
  assume "m s = (r, t)"
  then show "sends C (k + l) s t" by (intro sends_mono [OF movesD [OF assms(1)]]) auto
qed

lemma moves_sends_catch:
  assumes "moves (sends C k) m" "\<And>e. moves (sends C 0) (h e)"
  shows "moves (sends C k) (catch m h)"
proof (rule movesI, rule catch_cases)
  fix s e s' r t
  assume "m s = (Throw e, s')" "h e s' = (r, t)"
  then have "sends C (k + 0) s t" by (intro sends_trans [OF movesD [OF assms(1)] movesD [OF assms(2)]])
  then show "sends C k s t" by simp
qed (rule movesD [OF assms(1)])

lemma moves_sends_try: "moves (sends {off_cmd} 1) off_try"
  unfolding off_try_def thn_def
  by (rule moves_sends_catch, rule moves_sends_bnd [where k = 1 and l = 0, simplified add_0_right], unfold off_cmd_def,
      rule moves_sends_AT) (intro preorder_sends0 hoare_rules)+

lemma off_inner_sends:
  "1 \<le> retry \<Longrightarrow> off_inner retry s = (r, s') \<Longrightarrow>
     sends {off_cmd} retry s s' \<and>
     (\<forall>r'. r = Val (Some r') \<longrightarrow> 1 \<le> r' \<and> r' \<le> retry \<and> sends {off_cmd} (Suc (retry - r')) s s')"
proof (induction retry arbitrary: s rule: less_induct)
  case (less retry)
  obtain v s1 where v: "off_try s = (v, s1)" by fastforce
  then have s1: "sends {off_cmd} 1 s s1" by (rule movesD [OF moves_sends_try])
  then have s1': "sends {off_cmd} retry s s1" using less.prems(1) by (rule sends_mono)
  show ?case
  proof (cases "v = Val (Some False) \<and> retry - 1 \<noteq> 0")
    case True
    then have "off_inner (retry - 1) s1 = (r, s')"
      using less.prems(2) v by (subst (asm) off_inner.simps) (simp add: bnd_def)
    moreover have "retry - 1 < retry" "1 \<le> retry - 1" using True by auto
    ultimately have IH: "sends {off_cmd} (retry - 1) s1 s'"
      "\<forall>r'. r = Val (Some r') \<longrightarrow> 1 \<le> r' \<and> r' \<le> retry - 1 \<and> sends {off_cmd} (Suc (retry - 1 - r')) s1 s'"
      using less.IH by blast+
    have "sends {off_cmd} retry s s'" using sends_trans [OF s1 IH(1)] True by simp
    moreover have "1 \<le> r' \<and> r' \<le> retry \<and> sends {off_cmd} (Suc (retry - r')) s s'" if "r = Val (Some r')" for r'
    proof -
      have "sends {off_cmd} (1 + Suc (retry - 1 - r')) s s'" using that IH(2) by (intro sends_trans [OF s1]) auto
      moreover have "1 + Suc (retry - 1 - r') = Suc (retry - r')" using that IH(2) True by auto
      ultimately show ?thesis using that IH(2) by auto
    qed
    ultimately show ?thesis by simp
  next
    case False
    then have "s' = s1" "\<forall>r'. r = Val (Some r') \<longrightarrow> r' = retry"
      using less.prems(2) v
      by (subst (asm) off_inner.simps; auto simp: bnd_def ret_def split: outcome.splits option.splits if_splits)+
    with s1 s1' less.prems(1) show ?thesis by auto
  qed
qed

lemma off_outer_sends:
  "1 \<le> retry \<Longrightarrow> off_outer n retry s = (r, s') \<Longrightarrow> sends {off_cmd} retry s s'"
proof (induction n arbitrary: retry s)
  case 0
  then show ?case by (simp add: ret_def sends_def)
next
  case (Suc n)
  obtain v s1 where v: "atp TCPPort_Open0 s = (v, s1)" by fastforce
  then have s1: "sends {off_cmd} 0 s s1" by (rule movesD [OF moves_sends_port(3)])
  obtain x s2 where x: "off_inner retry s1 = (x, s2)" by fastforce
  note inner = off_inner_sends [OF Suc.prems(1) x]
  show ?case
  proof (cases "\<exists>u. v = Val u")
    case False
    with Suc.prems(2) v have "s' = s1" by (auto simp: thn_def bnd_def split: outcome.splits)
    with s1 show ?thesis by (auto intro: sends_mono)
  next
    case True
    show ?thesis
    proof (cases "\<exists>r'. x = Val (Some r') \<and> r' - 1 \<noteq> 0")
      case False
      with True Suc.prems(2) v x have "s' = s2"
        by (auto simp: thn_def bnd_def ret_def split: outcome.splits option.splits if_splits)
      with sends_trans [OF s1] inner show ?thesis by fastforce
    next
      case r': True
      then obtain r' where r': "x = Val (Some r')" "r' - 1 \<noteq> 0" by blast
      with True Suc.prems(2) v x have "off_outer n (r' - 1) s2 = (r, s')" by (auto simp: thn_def bnd_def)
      with r' have "sends {off_cmd} (r' - 1) s2 s'" by (intro Suc.IH) auto
      then have "sends {off_cmd} (0 + (Suc (retry - r') + (r' - 1))) s s'"
        using inner r'(1) by (intro sends_trans [OF s1] sends_trans [where k = "Suc (retry - r')"]) auto
      moreover have "0 + (Suc (retry - r') + (r' - 1)) = retry" using inner r' by auto
      ultimately show ?thesis by simp
    qed
  qed
qed

text \<open>The bound on the rounds is never what ends the outer loop.\<close>

lemma off_outer_bound:
  "1 \<le> retry \<Longrightarrow> retry \<le> n \<Longrightarrow> retry \<le> k \<Longrightarrow> off_outer n retry (s :: 'z modem_scheme) = off_outer k retry s"
proof (induction retry arbitrary: n k s rule: less_induct)
  case (less retry)
  then obtain n' k' where n: "n = Suc n'" "k = Suc k'" by (metis Suc_le_D One_nat_def le_trans)
  have "off_outer n' (r' - 1) s2 = off_outer k' (r' - 1) s2"
    if "off_inner retry s1 = (Val (Some r'), s2)" "r' - 1 \<noteq> 0" for s1 s2 :: "'z modem_scheme" and r'
    using off_inner_sends [OF less.prems(1) that(1)] that(2) less.prems n by (intro less.IH) auto
  then show ?case
    unfolding n by (auto simp: thn_def bnd_def split: prod.splits outcome.splits option.splits)
qed

lemma moves_mod_off [hoare_rules]: "moves mod_le (off_outer n retry)"
proof (induction n arbitrary: retry)
  case (Suc n)
  have "moves mod_le (off_inner retry)" for retry
    by (induction retry rule: less_induct; subst off_inner.simps)
      (auto simp: off_try_def intro!: preorder_mod_le hoare_rules split: option.split)
  with Suc show ?case by (auto intro!: preorder_mod_le hoare_rules split: option.split)
qed (simp add: hoare_rules)

lemma no_throw_syscall: "no_throw (syscall ev)"
  by (simp add: no_throw_def syscall_def split: list.splits)

lemma no_throw_connect_loop: "no_throw (connect_loop n)"
  by (induction n)
    (auto simp: try_connect_def TCPPort_SetTimeOut_def getp_def setp_def emit_def intro!: no_throw_rules no_throw_syscall)

lemma no_throw_Open: "no_throw (atp TCPPort_Open0)"
  unfolding atp_def TCPPort_Open0_def TCPPort_Open_def TCPPort_Connect_def TCPPort_SetTimeOut_def TCPPort_Close_def
    touch_def getp_def setp_def emit_def
  by (intro no_throw_rules no_throw_syscall no_throw_connect_loop)

lemma no_throw_off_inner: "no_throw (off_inner retry)"
  by (induction retry rule: less_induct; subst off_inner.simps)
    (auto simp: off_try_def intro!: no_throw_rules split: option.split)

lemma no_throw_off: "no_throw (off_outer n retry)"
  by (induction n arbitrary: retry)
    (auto intro!: no_throw_rules no_throw_Open no_throw_off_inner split: option.split)

section \<open>The frame of the power operations\<close>

definition mod_frame :: "'z modem_scheme \<Rightarrow> 'z modem_scheme \<Rightarrow> bool" where
  "mod_frame m m' =
     (left m' \<le> left m \<and> (\<exists>evs. trace m' = trace m @ evs) \<and> consumed m m' \<and>
      files m' = files m \<and> modem.more m' = modem.more m \<and> (tcp_ok (UT_ATPort m) \<longrightarrow> tcp_ok (UT_ATPort m')))"

lemma preorder_mod_frame [simp, intro]: "preorder_rel mod_frame"
  by (auto simp: preorder_rel_def mod_frame_def reflp_def transp_def intro: consumed_trans)

lemma mod_le_frame: "moves mod_le m \<Longrightarrow> moves mod_frame m"
  by (simp add: moves_def mod_le_def mod_frame_def)

lemma moves_frame_flags [hoare_rules]:
  "moves mod_frame (modify (bModemOpen_update f))" "moves mod_frame (modify (bPowerOff_update f))"
  by (auto intro!: moves_modify consumed_eq simp: mod_frame_def left_def)

lemmas moves_frame_le [hoare_rules] =
  moves_mod_posix [THEN mod_le_frame] moves_mod_port [THEN mod_le_frame] moves_mod_commands [THEN mod_le_frame]
  moves_mod_first_routine [THEN mod_le_frame] moves_mod_open_at_port [THEN mod_le_frame] moves_mod_off [THEN mod_le_frame]

lemma moves_frame_power [hoare_rules]: "moves mod_frame PowerOn" "moves mod_frame PowerOff"
  unfolding PowerOn_def PowerOff_def PowerOn_body_def connect_routine_def case_prod_beta
  by (intro preorder_mod_frame hoare_rules)+

section \<open>Switching on and off\<close>

text \<open>
  C33: switching the modem on, whatever the modem and the network do.  \<open>PowerOn\<close> never throws.  When it
  returns, its command port is released, and the modem is reported as on only if it is also marked open,
  the last command sent was the request for the data connection, and the answer to it contains \<open>OK\<close>.
\<close>

theorem PowerOn_reports:
  assumes "tcp_ok (UT_ATPort m)" "PowerOn m = (r, m')"
  shows "(\<forall>e. r \<noteq> Throw e) \<and>
    (r = Val () \<longrightarrow> tcp_ok (UT_ATPort m') \<and> \<not> bConnected (UT_ATPort m') \<and>
       (\<not> IsPowerOff m' \<longrightarrow>
          bModemOpen m' \<and> sent m' \<noteq> [] \<and> last (sent m') = bytes_of (''AT_IAPPPCONNECT=1,10'' @ crlf) \<and>
          contains (at_cache m') (bytes_of ''OK'')))"
proof (intro conjI impI)
  show "\<forall>e. r \<noteq> Throw e" using no_throwD [OF no_throw_PowerOn] assms(2) by auto
  assume "r = Val ()"
  then have "on_post m'" using hoare_ValD [OF hoare_PowerOn] assms by auto
  then show "tcp_ok (UT_ATPort m')" "\<not> bConnected (UT_ATPort m')"
    and "\<not> IsPowerOff m' \<Longrightarrow> bModemOpen m'" "\<not> IsPowerOff m' \<Longrightarrow> sent m' \<noteq> []"
    and "\<not> IsPowerOff m' \<Longrightarrow> last (sent m') = bytes_of (''AT_IAPPPCONNECT=1,10'' @ crlf)"
    and "\<not> IsPowerOff m' \<Longrightarrow> contains (at_cache m') (bytes_of ''OK'')"
    by (auto simp: on_post_def ppp_up_def IsPowerOff_def)
qed

text \<open>A modem that answers every command at once.\<close>

definition modem1 :: "reply list \<Rightarrow> modem" where
  "modem1 rs =
     world.extend (world0 rs)
       (modem.fields True True [] TCPPort0 [] [] [] [])"

definition text_reply :: "string \<Rightarrow> reply" where
  "text_reply s = (reply0 1)\<lparr>r_buf := bytes_of s\<rparr>"

definition on_script :: "reply list" where
  "on_script =
     [reply0 0, (reply0 0)\<lparr>r_num := 1\<rparr>, reply0 0, reply0 0,
      reply0 0, reply0 9, text_reply ''OK'', reply0 0, reply0 9, text_reply ''OK'']"

lemma on_script_runs:
  "fst (PowerOn (modem1 on_script)) = Val () \<and> \<not> IsPowerOff (snd (PowerOn (modem1 on_script)))"
  by code_simp

theorem PowerOn_reports_witness:
  "\<not> IsPowerOff (snd (PowerOn (modem1 on_script))) \<and>
     last (sent (snd (PowerOn (modem1 on_script)))) = bytes_of (''AT_IAPPPCONNECT=1,10'' @ crlf)"
proof -
  have "tcp_ok (UT_ATPort (modem1 on_script))" by (simp add: modem1_def modem.defs world.defs tcp_ok_def TCPPort0_def)
  from PowerOn_reports [OF this surjective_pairing] on_script_runs show ?thesis by auto
qed

text \<open>
  C34: switching the modem off, whatever the modem and the network do.  \<open>PowerOff\<close> never throws, reports the
  modem as off, sends nothing but the disconnect command, and that at most five times over both loops,
  whose counter they share.  When it returns, the command port is closed.
\<close>

theorem PowerOff_bounded:
  assumes "tcp_ok (UT_ATPort m)" "PowerOff m = (r, m')"
  shows "(\<forall>e. r \<noteq> Throw e) \<and> IsPowerOff m' \<and>
    (\<exists>n \<le> 5. sent m' = sent m @ replicate n (bytes_of (''AT_IAPPPCONNECT=0'' @ crlf @ [CHR 0x00]))) \<and>
    (r = Val () \<longrightarrow> \<not> bConnected (UT_ATPort m'))"
proof -
  let ?m0 = "bPowerOff_update (\<lambda>_. True) m"
  obtain v m1 where off: "off_outer 5 5 ?m0 = (v, m1)" by fastforce
  have m1: "tcp_ok (UT_ATPort m1)" "bPowerOff m1" "sends {off_cmd} 5 m m1"
    using movesD [OF moves_mod_off off] assms(1) off_outer_sends [OF _ off]
    by (auto simp: mod_le_def sends_def)
  have run: "PowerOff m = bnd (off_outer 5 5) (\<lambda>_. atp TCPPort_Close) ?m0"
    by (simp add: PowerOff_def thn_def prog_simps)
  obtain bss where bss: "sent m1 = sent m @ bss" "length bss \<le> 5" "set bss \<subseteq> {off_cmd}"
    using m1(3) by (auto simp: sends_def)
  then have "bss = replicate (length bss) off_cmd" by (metis replicate_length_same singletonD subsetD)
  with bss have sent1: "\<exists>n \<le> 5. sent m1 = sent m @ replicate n off_cmd" by metis
  have "(\<forall>e. r \<noteq> Throw e) \<and> bPowerOff m' \<and> sent m' = sent m1 \<and> (r = Val () \<longrightarrow> \<not> bConnected (UT_ATPort m'))"
  proof (cases v)
    case (Val u)
    with atp_Close [OF m1(1)] off assms(2) m1 show ?thesis by (auto simp: run bnd_def)
  next
    case (Throw e)
    with no_throwD [OF no_throw_off, of 5 5 ?m0 e m1] off show ?thesis by simp
  qed (use off assms(2) m1 in \<open>auto simp: run bnd_def\<close>)
  with sent1 show ?thesis unfolding off_cmd_def IsPowerOff_def by simp
qed

definition off_script :: "reply list" where
  "off_script = [reply0 0, (reply0 0)\<lparr>r_num := 1\<rparr>, reply0 0, reply0 9, text_reply ''OK'']"

theorem PowerOff_bounded_witness:
  "IsPowerOff (snd (PowerOff (modem1 off_script))) \<and> fst (PowerOff (modem1 off_script)) = Val () \<and>
     \<not> bConnected (UT_ATPort (snd (PowerOff (modem1 off_script))))"
proof -
  have ok: "tcp_ok (UT_ATPort (modem1 off_script))"
    by (simp add: modem1_def modem.defs world.defs tcp_ok_def TCPPort0_def)
  have "fst (PowerOff (modem1 off_script)) = Val ()" by code_simp
  with PowerOff_bounded [OF ok surjective_pairing] show ?thesis by auto
qed

text \<open>
  A signal report that arrives in pieces is misread.  \<open>GetSignalLevel\<close> waits for a newline
  anywhere in its cache, so an earlier line is enough to end the wait, and the digits received so far are
  taken for the whole level: of a report of 12.5, cut after its first digit, it returns 1.
\<close>

theorem GetSignalLevel_partial:
  "fst (GetSignalLevel ((modem1 [text_reply (''OK'' @ [newline] @ ''_ISIG:''), text_reply '' 1'', text_reply (''2.5'' @ [newline])])
       \<lparr>UT_ATPort := tcp1\<rparr>)) = Val 1"
  by code_simp

end
