(* ===== verification/Agent.thy ===== *)
theory Agent
  imports Modem SerialPort PacketQueue Commands
begin

text \<open>
  The state of the agent: the members of \<open>class Protocol\<close> (Protocol.h) and the data queue of
  \<open>class DataTask\<close> (DataTask.h), beside the modem and the environment.  The three threads share it.

  A reference parameter \<open>Channel&\<close> or \<open>TCPPort&\<close> is the name of one of the ports; \<open>agent_channel\<close> is its
  table of methods on the shared state.  After every call that may block, the updates the other
  threads made meanwhile are applied (\<open>absorb\<close>).  The members another thread may update under the
  running one are the two queues, the power state and the three flags of the protocol.
\<close>

record agent = modem +
  bExtCommunicationError :: bool
  bInCommunicationError :: bool
  bControlDone :: bool
  Machine :: byte
  serverName :: string
  nLastStatus :: u32
  nIdleTimeSetting :: int
  nIntervalSetting :: int
  tmLastActive :: timeval
  tmHealthCheckActive :: timeval
  tmCurrentDataActive :: timeval
  tmSendDataActive :: timeval
  devMP :: serialport
  srvData :: tcpport
  srvControl :: tcpport
  statusQueue :: queue
  nCommandPort :: int
  nDataPort :: int
  nNegotialTimeOut :: int
  dataQueue :: queue

type_synonym ('z, 'a) aprog = "('z agent_scheme, 'a) prog"

section \<open>Interference\<close>

text \<open>An operation of another thread on a queue that would be undefined is not an update.\<close>

definition try_upd :: "('a \<Rightarrow> 'a option) \<Rightarrow> 'a \<Rightarrow> 'a" where
  "try_upd f x = (case f x of None \<Rightarrow> x | Some y \<Rightarrow> y)"

fun interfere :: "interf \<Rightarrow> 'z agent_scheme \<Rightarrow> 'z agent_scheme" where
  "interfere (IPush p) s = s\<lparr>dataQueue := try_upd (\<lambda>q. Push q p) (dataQueue s)\<rparr>"
| "interfere IPop s = s\<lparr>dataQueue := try_upd Pop (dataQueue s)\<rparr>"
| "interfere (IPushStatus p) s = s\<lparr>statusQueue := try_upd (\<lambda>q. Push q p) (statusQueue s)\<rparr>"
| "interfere IPopStatus s = s\<lparr>statusQueue := try_upd Pop (statusQueue s)\<rparr>"
| "interfere (IPower b) s = s\<lparr>bPowerOff := b\<rparr>"
| "interfere (IControlDone b) s = s\<lparr>bControlDone := b\<rparr>"
| "interfere (IExtErr b) s = s\<lparr>bExtCommunicationError := b\<rparr>"
| "interfere (IInErr b) s = s\<lparr>bInCommunicationError := b\<rparr>"

definition absorb :: "'z agent_scheme \<Rightarrow> 'z agent_scheme" where
  "absorb s = fold interfere (pending s) (s\<lparr>pending := []\<rparr>)"

definition shared :: "('z, 'a) aprog \<Rightarrow> ('z, 'a) aprog" where
  "shared m s = (case m s of (r, s') \<Rightarrow> (r, absorb s'))"

section \<open>References to ports\<close>

datatype tcp_ref = DataPort | ControlPort

datatype chan_ref = Tcp tcp_ref | DevMP

fun tcp_get :: "tcp_ref \<Rightarrow> 'z agent_scheme \<Rightarrow> tcpport" where
  "tcp_get DataPort s = srvData s"
| "tcp_get ControlPort s = srvControl s"

fun tcp_put :: "tcp_ref \<Rightarrow> tcpport \<Rightarrow> 'z agent_scheme \<Rightarrow> 'z agent_scheme" where
  "tcp_put DataPort p s = s\<lparr>srvData := p\<rparr>"
| "tcp_put ControlPort p s = s\<lparr>srvControl := p\<rparr>"

definition on_tcp :: "tcp_ref \<Rightarrow> ('z agent_scheme \<times> tcpport, 'a) prog \<Rightarrow> ('z, 'a) aprog" where
  "on_tcp r m = shared (on_obj (tcp_get r) (tcp_put r) m)"

definition on_mp :: "('z agent_scheme \<times> serialport, 'a) prog \<Rightarrow> ('z, 'a) aprog" where
  "on_mp m = shared (on_obj devMP (\<lambda>p. devMP_update (\<lambda>_. p)) m)"

text \<open>The bound for the loops of the protocol: the queues count, since interference can fill them.\<close>

definition aleft :: "'z agent_scheme \<Rightarrow> nat" where
  "aleft s = left s + length (dataQueue s) + length (statusQueue s)"

fun agent_channel :: "chan_ref \<Rightarrow> 'z agent_scheme channel" where
  "agent_channel (Tcp r) =
     \<lparr>ch_Open = on_tcp r (ch_Open tcp_channel), ch_Read = (\<lambda>n. on_tcp r (ch_Read tcp_channel n)),
      ch_Write = (\<lambda>bs. on_tcp r (ch_Write tcp_channel bs)), ch_Lock = on_tcp r (ch_Lock tcp_channel),
      ch_Unlock = on_tcp r (ch_Unlock tcp_channel), ch_SetTimeOut = (\<lambda>t. on_tcp r (ch_SetTimeOut tcp_channel t)),
      ch_IsOpen = (\<lambda>s. ch_IsOpen tcp_channel (s, tcp_get r s)), ch_left = aleft\<rparr>"
| "agent_channel DevMP =
     \<lparr>ch_Open = on_mp (ch_Open serial_channel), ch_Read = (\<lambda>n. on_mp (ch_Read serial_channel n)),
      ch_Write = (\<lambda>bs. on_mp (ch_Write serial_channel bs)), ch_Lock = on_mp (ch_Lock serial_channel),
      ch_Unlock = on_mp (ch_Unlock serial_channel), ch_SetTimeOut = (\<lambda>t. on_mp (ch_SetTimeOut serial_channel t)),
      ch_IsOpen = (\<lambda>s. ch_IsOpen serial_channel (s, devMP s)), ch_left = aleft\<rparr>"

section \<open>The channel contract on the shared state\<close>

lemma try_upd_length:
  "length (try_upd (\<lambda>q. Push q p) q) \<le> Suc (length q)" "length (try_upd Pop q) \<le> length q"
  by (auto simp: try_upd_def Push_def Pop_def split: option.splits list.splits if_splits)

lemma interfere_frame:
  "script (interfere i s) = script s \<and> pending (interfere i s) = pending s \<and> trace (interfere i s) = trace s \<and>
   files (interfere i s) = files s \<and> now (interfere i s) = now s \<and> UT_ATPort (interfere i s) = UT_ATPort s \<and>
   srvData (interfere i s) = srvData s \<and> srvControl (interfere i s) = srvControl s \<and> devMP (interfere i s) = devMP s"
  by (cases i) simp_all

lemma interfere_length:
  "length (dataQueue (interfere i s)) + length (statusQueue (interfere i s)) \<le>
   Suc (length (dataQueue s) + length (statusQueue s))"
  by (cases i) (simp_all add: try_upd_length le_SucI add_le_mono flip: add_Suc add_Suc_right)

lemma fold_interfere_frame:
  "script (fold interfere is s) = script s \<and> pending (fold interfere is s) = pending s \<and>
   trace (fold interfere is s) = trace s \<and> files (fold interfere is s) = files s \<and> now (fold interfere is s) = now s \<and>
   UT_ATPort (fold interfere is s) = UT_ATPort s \<and>
   srvData (fold interfere is s) = srvData s \<and> srvControl (fold interfere is s) = srvControl s \<and>
   devMP (fold interfere is s) = devMP s"
  by (induction "is" arbitrary: s) (simp_all add: interfere_frame)

lemma fold_interfere_length:
  "length (dataQueue (fold interfere is s)) + length (statusQueue (fold interfere is s)) \<le>
   length is + length (dataQueue s) + length (statusQueue s)"
proof (induction "is" arbitrary: s)
  case (Cons i "is")
  from Cons.IH [of "interfere i s"] interfere_length [of i s] show ?case by simp
qed simp

lemma absorb_frame [simp]:
  "script (absorb s) = script s" "pending (absorb s) = []" "trace (absorb s) = trace s" "files (absorb s) = files s"
  "now (absorb s) = now s" "UT_ATPort (absorb s) = UT_ATPort s" "srvData (absorb s) = srvData s"
  "srvControl (absorb s) = srvControl s" "devMP (absorb s) = devMP s"
  by (simp_all add: absorb_def fold_interfere_frame)

lemma absorb_aleft: "aleft (absorb s) \<le> aleft s"
  using fold_interfere_length [of "pending s" "s\<lparr>pending := []\<rparr>"]
  by (simp add: aleft_def left_def absorb_def fold_interfere_frame)

lemma quiet_agent:
  assumes "quiet s s'"
  shows "dataQueue s' = dataQueue s" "statusQueue s' = statusQueue s" "srvData s' = srvData s"
    "srvControl s' = srvControl s" "devMP s' = devMP s" "UT_ATPort s' = UT_ATPort s" "bPowerOff s' = bPowerOff s"
    "bExtCommunicationError s' = bExtCommunicationError s" "bInCommunicationError s' = bInCommunicationError s"
    "bControlDone s' = bControlDone s" "Machine s' = Machine s" "nLastStatus s' = nLastStatus s"
    "tmCurrentDataActive s' = tmCurrentDataActive s" "tmHealthCheckActive s' = tmHealthCheckActive s"
    "aleft s' \<le> aleft s" "\<exists>evs. trace s' = trace s @ evs" "files s' = files s"
  using assms by (cases s; cases s'; simp add: quiet_def aleft_def left_def)+

text \<open>\<open>ag_le\<close>: no call adds to the bound, and the trace only grows.\<close>

definition ag_le :: "'z agent_scheme \<Rightarrow> 'z agent_scheme \<Rightarrow> bool" where
  "ag_le s s' = (aleft s' \<le> aleft s \<and> (\<exists>evs. trace s' = trace s @ evs))"

lemma preorder_ag_le [simp, intro]: "preorder_rel ag_le"
  by (auto simp: preorder_rel_def ag_le_def reflp_def transp_def intro: order_trans)

lemma ag_le_refl [simp]: "ag_le s s"
  by (simp add: ag_le_def)

lemma ag_le_absorb: "ag_le s s' \<Longrightarrow> ag_le s (absorb s')"
  using absorb_aleft [of s'] by (auto simp: ag_le_def)

lemma moves_shared:
  assumes "moves R m" "\<And>s s'. R s s' \<Longrightarrow> R s (absorb s')"
  shows "moves R (shared m)"
  using assms by (simp add: moves_def shared_def case_prod_beta)

lemma shared_Val: "shared m s = (r, s') \<Longrightarrow> \<exists>s1. m s = (r, s1) \<and> s' = absorb s1"
  by (auto simp: shared_def split: prod.splits)

lemma moves_ag_tcp: "moves obj_le m \<Longrightarrow> moves ag_le (on_tcp r m)"
  unfolding on_tcp_def
proof (rule moves_shared [where R = ag_le, OF _ ag_le_absorb], rule movesI)
  fix s :: "'a agent_scheme"
  assume m: "moves obj_le m"
  obtain v s1 p where run: "m (s, tcp_get r s) = (v, (s1, p))" by (metis prod.collapse)
  from movesD [OF m run] have "quiet s s1" by (simp add: obj_le_def)
  from quiet_agent(15,16) [OF this] run show "ag_le s (snd (on_obj (tcp_get r) (tcp_put r) m s))"
    by (cases r) (simp_all add: on_obj_def ag_le_def aleft_def left_def)
qed

lemma moves_ag_mp: "moves obj_le m \<Longrightarrow> moves ag_le (on_mp m)"
  unfolding on_mp_def
proof (rule moves_shared [where R = ag_le, OF _ ag_le_absorb], rule movesI)
  fix s :: "'a agent_scheme"
  assume m: "moves obj_le m"
  obtain v s1 p where run: "m (s, devMP s) = (v, (s1, p))" by (metis prod.collapse)
  from movesD [OF m run] have "quiet s s1" by (simp add: obj_le_def)
  from quiet_agent(15,16) [OF this] run show "ag_le s (snd (on_obj devMP (\<lambda>p. devMP_update (\<lambda>_. p)) m s))"
    by (simp add: on_obj_def ag_le_def aleft_def left_def)
qed

lemma moves_ag_quiet: "moves quiet m \<Longrightarrow> moves ag_le (shared m)"
  by (rule moves_shared [where R = ag_le, OF _ ag_le_absorb]) (auto simp: moves_def ag_le_def quiet_agent(15,16))

lemma aleft_strict:
  assumes "left (fst s') < left s" "quiet s (fst s')"
  shows "aleft (tcp_put r x (fst s')) < aleft s" "aleft (devMP_update (\<lambda>_. y) (fst s')) < aleft s"
  using assms(1) quiet_agent(1,2) [OF assms(2)] by (cases r; simp add: aleft_def left_def)+

lemma on_tcp_left:
  assumes "on_tcp r m s = (Val v, s')" "moves obj_le m"
    and "\<And>s v s'. m s = (Val v, s') \<Longrightarrow> left (fst s') < left (fst s)"
  shows "aleft s' < aleft s"
proof -
  obtain t where t: "m (s, tcp_get r s) = (Val v, t)" "s' = absorb (tcp_put r (snd t) (fst t))"
    using assms(1) by (auto simp: on_tcp_def on_obj_def shared_def split: prod.splits)
  have "quiet s (fst t)" using movesD [OF assms(2) t(1)] by (simp add: obj_le_def)
  from aleft_strict(1) [OF _ this, of r "snd t"] assms(3) [OF t(1)] t(2) show ?thesis
    using absorb_aleft order.strict_trans1 by fastforce
qed

lemma on_mp_left:
  assumes "on_mp m s = (Val v, s')" "moves obj_le m"
    and "\<And>s v s'. m s = (Val v, s') \<Longrightarrow> left (fst s') < left (fst s)"
  shows "aleft s' < aleft s"
proof -
  obtain t where t: "m (s, devMP s) = (Val v, t)" "s' = absorb (devMP_update (\<lambda>_. snd t) (fst t))"
    using assms(1) by (auto simp: on_mp_def on_obj_def shared_def split: prod.splits)
  have "quiet s (fst t)" using movesD [OF assms(2) t(1)] by (simp add: obj_le_def)
  from aleft_strict(2) [OF _ this, of "snd t"] assms(3) [OF t(1)] t(2) show ?thesis
    using absorb_aleft order.strict_trans1 by fastforce
qed

lemma no_undef_shared [safe_rules]: "no_undef m \<Longrightarrow> no_undef (shared m)"
  by (simp add: no_undef_def shared_def case_prod_beta)

lemma no_undef_on [safe_rules]: "no_undef m \<Longrightarrow> no_undef (on_tcp r m)" "no_undef k \<Longrightarrow> no_undef (on_mp k)"
  unfolding on_tcp_def on_mp_def by (intro safe_rules; assumption)+

lemma on_Val:
  "on_tcp r m s = (v, s') \<Longrightarrow> \<exists>t. m (s, tcp_get r s) = (v, t) \<and> s' = absorb (tcp_put r (snd t) (fst t))"
  "on_mp k s = (v, s') \<Longrightarrow> \<exists>t. k (s, devMP s) = (v, t) \<and> s' = absorb (devMP_update (\<lambda>_. snd t) (fst t))"
  by (auto simp: on_tcp_def on_mp_def on_obj_def shared_def split: prod.splits)

lemma agent_read_len: "ch_Read (agent_channel c) n s = (Val bs, s') \<Longrightarrow> length bs \<le> n"
  by (cases c) (auto simp: tcp_channel_def serial_channel_def dest!: on_Val Read_len ser_Read_len)

lemma agent_read_left: "ch_Read (agent_channel c) n s = (Val bs, s') \<Longrightarrow> 0 < n \<Longrightarrow> aleft s' < aleft s"
proof (cases c)
  case (Tcp r)
  assume "ch_Read (agent_channel c) n s = (Val bs, s')"
  with Tcp show ?thesis
    by (intro on_tcp_left [of r "TCPPort_Read n"]) (auto simp: tcp_channel_def hoare_rules dest: Read_left)
next
  case DevMP
  assume "ch_Read (agent_channel c) n s = (Val bs, s')" "0 < n"
  with DevMP show ?thesis
    by (intro on_mp_left [of "SerialPort_Read n"]) (auto simp: serial_channel_def hoare_rules dest: ser_Read_left)
qed

lemma agent_read_no_undef [safe_rules]: "no_undef (ch_Read (agent_channel c) n)"
  by (cases c) (simp_all add: tcp_channel_def serial_channel_def safe_rules)

lemma moves_ag_channel [hoare_rules]:
  "moves ag_le (ch_Read (agent_channel c) n)" "moves ag_le (ch_Write (agent_channel c) bs)"
  "moves ag_le (ch_SetTimeOut (agent_channel c) t)" "moves ag_le (ch_Open (agent_channel c))"
  "moves ag_le (ch_Lock (agent_channel c))" "moves ag_le (ch_Unlock (agent_channel c))"
  by (cases c; simp add: tcp_channel_def serial_channel_def SerialPort_Lock_def SerialPort_Unlock_def SerialPort_SetTimeOut_def;
      intro moves_ag_tcp moves_ag_mp preorder_obj_le hoare_rules)+

lemma agent_timeout_Val: "\<exists>s'. ch_SetTimeOut (agent_channel c) t s = (Val (), s')"
proof (cases c)
  case (Tcp r)
  obtain t' where "ch_SetTimeOut tcp_channel t (s, tcp_get r s) = (Val (), t')" using tcp.timeout_Val by blast
  with Tcp show ?thesis by (auto simp: on_tcp_def on_obj_def shared_def split: prod.splits)
next
  case DevMP
  obtain t' where "ch_SetTimeOut serial_channel t (s, devMP s) = (Val (), t')" using serial.timeout_Val by blast
  with DevMP show ?thesis by (auto simp: on_mp_def on_obj_def shared_def split: prod.splits)
qed

lemma agent_left [simp]: "ch_left (agent_channel c) = aleft"
  by (cases c) simp_all

lemma moves_ag_aleft: "moves ag_le m \<Longrightarrow> moves (\<lambda>s s'. aleft s' \<le> aleft s) m"
  by (simp add: moves_def ag_le_def)

interpretation agent: channel "agent_channel c" for c
proof
  show "moves (\<lambda>s s'. ch_left (agent_channel c) s' \<le> ch_left (agent_channel c) s) (ch_Write (agent_channel c) bs)" for bs
    by (simp add: moves_ag_aleft moves_ag_channel)
  show "moves (\<lambda>s s'. ch_left (agent_channel c) s' \<le> ch_left (agent_channel c) s) (ch_SetTimeOut (agent_channel c) t)" for t
    by (simp add: moves_ag_aleft moves_ag_channel)
qed (auto dest: agent_read_len agent_read_left intro: agent_read_no_undef agent_timeout_Val)

section \<open>Consumption\<close>

lemma eats_on:
  "eats (\<lambda>s. left (fst s)) m \<Longrightarrow> moves obj_le m \<Longrightarrow> eats aleft (on_tcp r m)"
  "eats (\<lambda>s. left (fst s)) k \<Longrightarrow> moves obj_le k \<Longrightarrow> eats aleft (on_mp k)"
  unfolding eats_def by (blast intro: on_tcp_left on_mp_left)+

lemma eats_shared:
  assumes "eats left m" "moves quiet m"
  shows "eats aleft (shared m)"
  unfolding eats_def
proof (intro allI impI)
  fix s v s'
  assume "shared m s = (Val v, s')"
  then obtain s1 where s1: "m s = (Val v, s1)" "s' = absorb s1" using shared_Val by blast
  have "aleft s1 < aleft s"
    using eatsD [OF assms(1) s1(1)] quiet_agent(1,2) [OF movesD [OF assms(2) s1(1)]] by (simp add: aleft_def)
  with absorb_aleft [of s1] s1(2) show "aleft s' < aleft s" by simp
qed

lemma eats_shared_sleep: "eats aleft (shared (sleep n))" "eats aleft (shared (usleep n))"
  by (intro eats_shared eats_sleep hoare_rules)+

lemma eats_Read: "eats aleft (ch_Read (agent_channel c) 1)"
  unfolding eats_def by (blast intro: agent_read_left zero_less_one)

lemma preorder_fst_ag_le [simp, intro]: "preorder_rel (\<lambda>s s'. ag_le (fst s) (fst s'))"
  by (rule preorder_fst) simp

lemma moves_ag_recv [hoare_rules]:
  "moves (\<lambda>s s'. ag_le (fst s) (fst s')) (ReceiveFrameFrom (agent_channel c))"
  "moves (\<lambda>s s'. ag_le (fst s) (fst s')) (ReceiveAckFrom (agent_channel c))"
  by (intro moves_ReceiveFrameFrom moves_ReceiveAckFrom preorder_ag_le hoare_rules)+

lemma moves_fst_aleft: "moves (\<lambda>s s'. ag_le (fst s) (fst s')) m \<Longrightarrow> moves (\<lambda>s s'. aleft (fst s') \<le> aleft (fst s)) m"
  by (simp add: moves_def ag_le_def)

lemma eats_fst_outer: "eats \<mu> m \<Longrightarrow> eats (\<lambda>s. \<mu> (fst s)) (outer m)"
  by (auto simp: eats_def outer_def split: prod.splits)

lemma eats_call: "eats (\<lambda>s. \<mu> (fst s)) m \<Longrightarrow> eats \<mu> (call m x)"
  by (auto simp: eats_def call_def call_try_def bnd_eq_Val ret_def throw_def split: prod.splits outcome.splits sum.splits)
    (metis fst_conv)

lemma eats_read1: "eats (\<lambda>s. aleft (fst s)) (read1 (agent_channel c))"
  unfolding read1_def
  by (rule eats_bnd1 [OF eats_fst_outer [OF eats_Read]])
    (intro moves_fst_aleft preorder_fst_ag_le moves_case_list moves_ret)

lemma moves_ag_read1 [hoare_rules]: "moves (\<lambda>s s'. ag_le (fst s) (fst s')) (read1 (agent_channel c))"
  by (intro moves_fst_read1 preorder_ag_le hoare_rules)

lemma eats_ReceiveAckFrom: "eats (\<lambda>s. aleft (fst s)) (ReceiveAckFrom (agent_channel c))"
  unfolding ReceiveAckFrom_def scan_start_def scan_start_body_def collect_ack_body_def clear_cache_def append_cache_def
  by (intro eats_thn(2) eats_bnd1 [OF eats_read1] moves_fst_aleft preorder_fst_ag_le moves_fst_cache preorder_ag_le
      moves_fst_outer hoare_rules) auto

end
