(* ===== verification/Negotiation.thy ===== *)
theory Negotiation
  imports Agent
begin

text \<open>
  \<open>class Protocol\<close> (Protocol.h, Protocol.cpp), first part: settings, timers, and the negotiation of a channel
  with the server, which assigns a port on a well-known one.  The methods are programs over the state
  of the agent.  \<open>int\<close> and \<open>long\<close> are 32 bits wide.
\<close>

section \<open>Construction and settings\<close>

text \<open>The values the constructor sets; \<open>t\<close> is the time of its call.\<close>

definition Protocol_init :: "string \<Rightarrow> timeval \<Rightarrow> 'z agent_scheme \<Rightarrow> 'z agent_scheme" where
  "Protocol_init szServer t s =
     s\<lparr>serverName := szServer, nIdleTimeSetting := 20, nIntervalSetting := 600,
       tmCurrentDataActive := t, tmHealthCheckActive := t, tmLastActive := t, tmSendDataActive := t,
       nLastStatus := 0, bExtCommunicationError := False, bInCommunicationError := False,
       nCommandPort := 50101, nDataPort := 50001, nNegotialTimeOut := 20, bControlDone := False,
       devMP := SerialPort0, srvData := TCPPort0, srvControl := TCPPort0, statusQueue := []\<rparr>"

definition SetCommandPort :: "int \<Rightarrow> 'z agent_scheme \<Rightarrow> 'z agent_scheme" where
  "SetCommandPort n s = s\<lparr>nCommandPort := n\<rparr>"

definition Protocol_SetDataPort :: "int \<Rightarrow> 'z agent_scheme \<Rightarrow> 'z agent_scheme" where
  "Protocol_SetDataPort n s = s\<lparr>nDataPort := n\<rparr>"

definition SetExtCommunicationError :: "bool \<Rightarrow> 'z agent_scheme \<Rightarrow> 'z agent_scheme" where
  "SetExtCommunicationError b s = s\<lparr>bExtCommunicationError := b\<rparr>"

definition SetMachine :: "byte \<Rightarrow> 'z agent_scheme \<Rightarrow> 'z agent_scheme" where
  "SetMachine m s = s\<lparr>Machine := m\<rparr>"

definition SetIntervalSecond :: "int \<Rightarrow> 'z agent_scheme \<Rightarrow> 'z agent_scheme" where
  "SetIntervalSecond n s = s\<lparr>nIntervalSetting := n\<rparr>"

definition SetIdleTimeSecond :: "int \<Rightarrow> 'z agent_scheme \<Rightarrow> 'z agent_scheme" where
  "SetIdleTimeSecond n s = s\<lparr>nIdleTimeSetting := n\<rparr>"

definition SetControlDone :: "bool \<Rightarrow> 'z agent_scheme \<Rightarrow> 'z agent_scheme" where
  "SetControlDone b s = s\<lparr>bControlDone := b\<rparr>"

definition status_file :: string where
  "status_file = ''./status.data''"

definition SaveStatus :: "('z, unit) aprog" where
  "SaveStatus = bnd (gets statusQueue) (\<lambda>q. if GetSize q \<noteq> 0 then shared (Save status_file q) else ret ())"

definition LoadStatus :: "('z, unit) aprog" where
  "LoadStatus = on_obj statusQueue (\<lambda>q. statusQueue_update (\<lambda>_. q)) (Load status_file)"

section \<open>Ports\<close>

definition tcp_Close :: "tcp_ref \<Rightarrow> ('z, unit) aprog" where
  "tcp_Close r = on_tcp r TCPPort_Close"

definition set_remote :: "tcp_ref \<Rightarrow> int \<Rightarrow> ('z, unit) aprog" where
  "set_remote r n = modify (\<lambda>s. tcp_put r (SetRemotePort n (tcp_get r s)) s)"

text \<open>\<open>packet.ReceiveFrameFrom(port)\<close> and \<open>packet.ReceiveAckFrom(port)\<close> on a local packet.\<close>

definition recv :: "chan_ref \<Rightarrow> packet \<Rightarrow> ('z, packet) aprog" where
  "recv c p = bnd (call (ReceiveFrameFrom (agent_channel c)) p) (\<lambda>(_, q). ret q)"

section \<open>Time\<close>

text \<open>\<open>tv_sec * 1000000 + tv_usec\<close> in 32 bits.\<close>

definition tv_usecs :: "timeval \<Rightarrow> int" where
  "tv_usecs tv = wrap32 (tv_sec tv * 1000000 + tv_usec tv)"

text \<open>C division, rounding towards zero; undefined by zero.\<close>

definition cdiv :: "int \<Rightarrow> int \<Rightarrow> int option" where
  "cdiv a b = (if b = 0 then None else Some (sgn a * sgn b * (\<bar>a\<bar> div \<bar>b\<bar>)))"

definition setReservedTime :: "int \<Rightarrow> bool \<Rightarrow> timeval \<Rightarrow> timeval option" where
  "setReservedTime n bAlign tmNow =
     (if bAlign then map_option (\<lambda>q. \<lparr>tv_sec = (q + 1) * n, tv_usec = 0\<rparr>) (cdiv (tv_sec tmNow) n)
      else Some \<lparr>tv_sec = tv_sec tmNow + n, tv_usec = tv_usec tmNow\<rparr>)"

definition isTimeForAction :: "timeval \<Rightarrow> 'z agent_scheme \<Rightarrow> bool" where
  "isTimeForAction timer s = (\<not> timer_less (gettimeofday s) timer)"

definition setLastActionTime :: "timeval \<Rightarrow> 'z agent_scheme \<Rightarrow> 'z agent_scheme" where
  "setLastActionTime tm s = (if timer_less (tmLastActive s) tm then s\<lparr>tmLastActive := tm\<rparr> else s)"

definition IsTimeForSleep :: "('z, bool) aprog" where
  "IsTimeForSleep =
     bnd (gets gettimeofday) (\<lambda>tmNow.
     thn (modify (\<lambda>s. setLastActionTime (tmLastAction (srvData s)) s))
       (thn (modify (\<lambda>s. setLastActionTime (tmLastAction (srvControl s)) s))
         (gets (\<lambda>s. uwrap32 (tv_sec (timersub tmNow (tmLastActive s))) > uwrap32 (nIdleTimeSetting s)))))"

definition patrol_usec :: "timeval \<Rightarrow> timeval \<Rightarrow> timeval \<Rightarrow> int" where
  "patrol_usec tmCurrent tmHealth tmNow =
     (let n1 = tv_usecs (timersub tmCurrent tmNow);
          n2 = tv_usecs (timersub tmHealth tmNow);
          n1 = (if n1 < 0 then 0 else n1);
          n2 = (if n2 < 0 then 0 else n2)
      in if n1 > n2 then n2 else n1)"

definition PatrolRest :: "('z, unit) aprog" where
  "PatrolRest =
     bnd (gets (\<lambda>s. patrol_usec (tmCurrentDataActive s) (tmHealthCheckActive s) (gettimeofday s))) (\<lambda>n1.
       shared (usleep n1))"

definition SleepForPowerOn :: "('z, unit) aprog" where
  "SleepForPowerOn =
     bnd (gets gettimeofday) (\<lambda>tmNow.
     bnd (gets nIntervalSetting) (\<lambda>n.
     bnd (of_opt (cdiv (tv_sec tmNow) n)) (\<lambda>q.
       shared (usleep (tv_usecs (timersub \<lparr>tv_sec = (q + 1) * n, tv_usec = 0\<rparr> tmNow))))))"

definition Protocol_Sleep :: int where
  "Protocol_Sleep = 0"

section \<open>Negotiating a channel\<close>

definition next_port :: "int \<Rightarrow> int \<Rightarrow> int" where
  "next_port nStartPort start_port = (if start_port = nStartPort then start_port + 1 else nStartPort)"

text \<open>The branch for a port that does not open: \<open>Inr 0\<close> gives up.  The loop variables are port, retries, empty answers.\<close>

definition open_failed :: "int \<Rightarrow> timeval \<Rightarrow> int \<times> nat \<times> nat \<Rightarrow> ('z, (int \<times> nat \<times> nat) + int) aprog" where
  "open_failed nStartPort tmStart v =
     (case v of (start_port, retry, retry_data) \<Rightarrow>
        bnd (gets gettimeofday) (\<lambda>tmNow.
        let retry = retry + 1 in
        if retry = 6 then ret (Inr 0)
        else
          let start_port = (if retry mod 3 = 0 then next_port nStartPort start_port else start_port);
              uSleep = tv_usecs (timersub tmNow tmStart)
          in thn (if uSleep > 0 then shared (usleep uSleep) else ret ())
               (ret (Inl (start_port, retry, retry_data)))))"

text \<open>Acknowledging the command and closing the port; the result is the assigned port.\<close>

definition accept_port :: "tcp_ref \<Rightarrow> packet \<Rightarrow> ('z, int) aprog" where
  "accept_port r cmd =
     thn (catch
            (bnd (gets Machine) (\<lambda>m.
             bnd (of_opt (CommandType cmd)) (\<lambda>eCmd.
             bnd (of_opt (GetAssignedPort cmd)) (\<lambda>nNum.
             bnd (of_opt (Packet_Ack True m eCmd nNum)) (\<lambda>ack.
               thn (SendTo (agent_channel (Tcp r)) ack) (ret ()))))))
            (\<lambda>e. ret ()))
       (thn (tcp_Close r)
         (bnd (of_opt (GetAssignedPort cmd)) (\<lambda>n. ret (int (unat n)))))"

definition negotiate_body :: "tcp_ref \<Rightarrow> int \<Rightarrow> int \<times> nat \<times> nat \<Rightarrow> ('z, (int \<times> nat \<times> nat) + int) aprog" where
  "negotiate_body r nStartPort v =
     (case v of (start_port, retry, retry_data) \<Rightarrow>
        bnd (gets gettimeofday) (\<lambda>tmStart.
        bnd (gets serverName) (\<lambda>host.
        bnd (on_tcp r (TCPPort_Open host start_port)) (\<lambda>n.
          if n < 0 then open_failed nStartPort tmStart v
          else
            thn (on_tcp r (TCPPort_SetTimeOut 20000000))
              (bnd (call_try (ReceiveFrameFrom (agent_channel (Tcp r))) []) (\<lambda>(_, cmd).
                 if length cmd = 0 then
                   (let retry_data = retry_data + 1 in
                    if retry_data = 4 then ret (Inr 0)
                    else ret (Inl (next_port nStartPort start_port, 0, retry_data)))
                 else bnd (accept_port r cmd) (\<lambda>n. ret (Inr n))))))))"

definition negoiateChannel :: "tcp_ref \<Rightarrow> int \<Rightarrow> ('z, int) aprog" where
  "negoiateChannel r nStartPort = loop aleft (negotiate_body r nStartPort) (nStartPort, 0, 0)"

text \<open>The pause after a failed connection attempt that took \<open>tmDiff\<close>.\<close>

definition pause :: "int \<Rightarrow> timeval \<Rightarrow> ('z, unit) aprog" where
  "pause t tmDiff =
     (if tv_usecs tmDiff < wrap32 (t * 1000000)
      then shared (usleep (wrap32 (wrap32 (t * 1000000) - tv_usecs tmDiff))) else ret ())"

text \<open>One round of the connection loops: the parts they have in common, and the rest of each.\<close>

definition connect_assigned :: "tcp_ref \<Rightarrow> int \<Rightarrow> ('z, int \<times> int \<times> timeval) aprog" where
  "connect_assigned r nAssigned =
     thn (set_remote r nAssigned)
       (bnd (gets nNegotialTimeOut) (\<lambda>t.
        thn (on_tcp r (TCPPort_SetTimeOut (wrap32 (t * 1000000))))
          (bnd (gets gettimeofday) (\<lambda>tmStart.
           bnd (on_tcp r TCPPort_Connect) (\<lambda>v. ret (v, t, tmStart))))))"

definition data_try :: "tcp_ref \<Rightarrow> int \<Rightarrow> ('z, int option option) aprog" where
  "data_try r nAssigned =
     bnd (connect_assigned r nAssigned) (\<lambda>(v, t, tmStart).
       if v = 0 then
         thn (modify (bExtCommunicationError_update (\<lambda>_. False))) (ret (Some (Some nAssigned)))
       else
         bnd (gets IsPowerOff) (\<lambda>off.
           if off then ret (Some (Some 0))
           else
             bnd (gets gettimeofday) (\<lambda>tmNow.
               thn (pause t (timersub tmNow tmStart)) (ret None))))"

text \<open>\<open>while (nPort && retry_connect--)\<close>: \<open>Some v\<close> returns \<open>v\<close>, \<open>None\<close> is the end of the loop.\<close>

fun data_rounds :: "tcp_ref \<Rightarrow> nat \<Rightarrow> int \<Rightarrow> ('z, int option) aprog" where
  "data_rounds r 0 nAssigned = ret None"
| "data_rounds r (Suc retry_connect) nAssigned =
     (if nAssigned = 0 then ret None
      else
        bnd (attempts 3 (data_try r nAssigned) None) (\<lambda>x.
          case x of
            Some v \<Rightarrow> ret (Some v)
          | None \<Rightarrow>
              bnd (gets IsPowerOff) (\<lambda>off.
                if off then ret (Some 0)
                else
                  bnd (gets nDataPort) (\<lambda>n.
                  bnd (negoiateChannel r n) (\<lambda>nAssigned. data_rounds r retry_connect nAssigned)))))"

text \<open>Waiting for the control channel: \<open>False\<close> when the modem went off.\<close>

definition wait_body :: "unit \<Rightarrow> ('z, unit + bool) aprog" where
  "wait_body u =
     bnd (gets bControlDone) (\<lambda>d.
       if d then ret (Inr True)
       else
         thn (shared (sleep 1))
           (bnd (gets IsPowerOff) (\<lambda>off. if off then ret (Inr False) else ret (Inl ()))))"

definition wait_control :: "('z, bool) aprog" where
  "wait_control = loop aleft wait_body ()"

definition NegoiateDataChannel :: "tcp_ref \<Rightarrow> ('z, int) aprog" where
  "NegoiateDataChannel r =
     bnd wait_control (\<lambda>go.
       if \<not> go then ret 0
       else
         bnd (gets nDataPort) (\<lambda>n.
         bnd (negoiateChannel r n) (\<lambda>nAssigned.
         bnd (data_rounds r 1 nAssigned) (\<lambda>x.
           case x of
             Some v \<Rightarrow> ret v
           | None \<Rightarrow>
               bnd (gets IsPowerOff) (\<lambda>off.
                 thn (if \<not> off then modify (bExtCommunicationError_update (\<lambda>_. True)) else ret ())
                   (ret (-1)))))))"

definition control_try :: "tcp_ref \<Rightarrow> int \<Rightarrow> ('z, bool option) aprog" where
  "control_try r nAssigned =
     bnd (connect_assigned r nAssigned) (\<lambda>(v, t, tmStart).
       if v = 0 then
         thn (modify (\<lambda>s. s\<lparr>bExtCommunicationError := False, bControlDone := True\<rparr>)) (ret (Some True))
       else
         bnd (gets gettimeofday) (\<lambda>tmNow. thn (pause t (timersub tmNow tmStart)) (ret None)))"

fun control_rounds :: "tcp_ref \<Rightarrow> nat \<Rightarrow> int \<Rightarrow> ('z, bool) aprog" where
  "control_rounds r 0 nAssigned = ret False"
| "control_rounds r (Suc retry_connect) nAssigned =
     (if nAssigned = 0 then ret False
      else
        bnd (attempts 3 (control_try r nAssigned) False) (\<lambda>ok.
          if ok then ret True
          else
            bnd (gets nCommandPort) (\<lambda>n.
            bnd (negoiateChannel r n) (\<lambda>nAssigned. control_rounds r retry_connect nAssigned))))"

definition NegoiateControlChannel :: "tcp_ref \<Rightarrow> ('z, unit) aprog" where
  "NegoiateControlChannel r =
     bnd (gets nCommandPort) (\<lambda>n.
     bnd (negoiateChannel r n) (\<lambda>nAssigned.
     bnd (control_rounds r 1 nAssigned) (\<lambda>ok.
       if ok then ret () else modify (bExtCommunicationError_update (\<lambda>_. True)))))"


section \<open>Bounds\<close>

lemma moves_ag_shared [hoare_rules]: "moves ag_le (shared (usleep n))" "moves ag_le (shared (sleep n))"
  by (intro moves_ag_quiet hoare_rules)+

lemma moves_ag_ports [hoare_rules]:
  "moves ag_le (tcp_Close r)" "moves ag_le (set_remote r n)" "moves ag_le (on_tcp r (TCPPort_Open h k))"
  "moves ag_le (on_tcp r (TCPPort_SetTimeOut t))" "moves ag_le (on_tcp r TCPPort_Connect)"
  unfolding tcp_Close_def set_remote_def
  by (intro moves_ag_tcp hoare_rules moves_modify; cases r; simp add: ag_le_def aleft_def left_def)+

lemma moves_ag_call [hoare_rules]:
  "moves (\<lambda>s s'. ag_le (fst s) (fst s')) m \<Longrightarrow> moves ag_le (call_try m x)"
  "moves (\<lambda>s s'. ag_le (fst s) (fst s')) m \<Longrightarrow> moves ag_le (call m x)"
  by (auto intro: moves_call_try moves_call)

lemma moves_ag_recv1 [hoare_rules]: "moves ag_le (recv c p)" "moves ag_le (SendTo (agent_channel c) q)"
  unfolding recv_def SendTo_def case_prod_beta by (intro preorder_ag_le hoare_rules)+

text \<open>The members that have no part in the bound.\<close>

lemma moves_ag_fields [hoare_rules]:
  "moves ag_le (modify (bExtCommunicationError_update f))" "moves ag_le (modify (bInCommunicationError_update f))"
  "moves ag_le (modify (nLastStatus_update g))" "moves ag_le (modify (tmCurrentDataActive_update h))"
  "moves ag_le (modify (tmHealthCheckActive_update h))" "moves ag_le (modify (tmSendDataActive_update h))"
  "moves ag_le (modify (\<lambda>s. s\<lparr>bExtCommunicationError := b, bControlDone := d\<rparr>))"
  "moves ag_le (modify (\<lambda>s. s\<lparr>bExtCommunicationError := b, bInCommunicationError := d\<rparr>))"
  by (intro moves_modify; simp add: ag_le_def aleft_def left_def)+

lemma moves_ag_negotiate [hoare_rules]: "moves ag_le (negoiateChannel r n)"
  unfolding negoiateChannel_def negotiate_body_def open_failed_def accept_port_def case_prod_beta Let_def
  by (intro preorder_ag_le hoare_rules)

lemma moves_ag_connect [hoare_rules]: "moves ag_le (connect_assigned r n)"
  unfolding connect_assigned_def by (intro preorder_ag_le hoare_rules)

lemma moves_ag_data_rounds [hoare_rules]: "moves ag_le (data_rounds r k n)"
  by (induction k arbitrary: n)
    (auto simp: data_try_def pause_def case_prod_beta intro!: preorder_ag_le hoare_rules simp del: attempts.simps)

lemma moves_ag_control_rounds [hoare_rules]: "moves ag_le (control_rounds r k n)"
  by (induction k arbitrary: n)
    (auto simp: control_try_def pause_def case_prod_beta intro!: preorder_ag_le hoare_rules simp del: attempts.simps)

lemma moves_ag_wait [hoare_rules]: "moves ag_le wait_control"
  unfolding wait_control_def wait_body_def by (intro preorder_ag_le hoare_rules)

lemma moves_ag_channels [hoare_rules]: "moves ag_le (NegoiateDataChannel r)" "moves ag_le (NegoiateControlChannel r)"
  unfolding NegoiateDataChannel_def NegoiateControlChannel_def by (intro preorder_ag_le hoare_rules)+

text \<open>Consumption: the rounds of the two loops shorten the script.\<close>

lemma consumes_wait: "consumes aleft wait_body"
  by (auto simp: consumes_def wait_body_def bnd_eq_Val thn_def gets_def ret_def split: if_splits
      dest: eatsD [OF eats_shared_sleep(1)])

lemma consumes_eats: "(\<And>x. eats \<mu> (body x)) \<Longrightarrow> consumes \<mu> body"
  unfolding consumes_def eats_def by blast

lemma consumes_negotiate: "consumes aleft (negotiate_body r n)"
  unfolding negotiate_body_def open_failed_def accept_port_def case_prod_beta Let_def
  by (intro consumes_eats eats_bnd2 moves_ag_aleft preorder_ag_le hoare_rules
      eats_bnd1 [OF eats_on(1) [OF eats_Open moves_tcp_Open]])

text \<open>At most twenty-four attempts: six failures in a row end the loop, and so do four openings without command.\<close>

definition attempts_left :: "int \<times> nat \<times> nat \<Rightarrow> nat" where
  "attempts_left v = (case v of (start_port, retry, retry_data) \<Rightarrow> 6 * (3 - retry_data) + (5 - retry))"

definition within_tries :: "int \<times> nat \<times> nat \<Rightarrow> bool" where
  "within_tries v = (fst (snd v) \<le> 5 \<and> snd (snd v) \<le> 3)"

lemma negotiate_rounds:
  "within_tries v \<Longrightarrow> negotiate_body r n v s = (Val (Inl v'), s') \<Longrightarrow> within_tries v' \<and> attempts_left v' < attempts_left v"
  by (cases v)
    (auto simp: negotiate_body_def open_failed_def attempts_left_def within_tries_def bnd_eq_Val thn_def gets_def
      ret_def Let_def split: if_splits)

lemma negotiate_bounded: "negoiateChannel r n s = loopN 24 (negotiate_body r n) (n, 0, 0) s"
proof -
  let ?k = "Suc (max 23 (aleft s))"
  have "loopN ?k (negotiate_body r n) (n, 0, 0) s = loopN 24 (negotiate_body r n) (n, 0, 0) s"
    by (rule loopN_measure [where J = within_tries and \<nu> = "\<lambda>v s. attempts_left v"], rule negotiate_rounds)
      (simp_all add: attempts_left_def within_tries_def)
  moreover have "loopN ?k (negotiate_body r n) (n, 0, 0) s = negoiateChannel r n s"
    unfolding negoiateChannel_def by (rule loop_consumes [OF consumes_negotiate]) simp
  ultimately show ?thesis by simp
qed

section \<open>Port states\<close>

definition ports_ok :: "'z agent_scheme \<Rightarrow> bool" where
  "ports_ok s = (tcp_ok (srvData s) \<and> tcp_ok (srvControl s))"

lemma ports_ok_get: "ports_ok s \<Longrightarrow> tcp_ok (tcp_get r s)"
  by (cases r) (simp_all add: ports_ok_def)

lemma tcp_get_absorb [simp]: "tcp_get r (absorb s) = tcp_get r s"
  by (cases r) simp_all

lemma tcp_get_put [simp]: "tcp_get r (tcp_put r p s) = p"
  by (cases r) simp_all

lemma ports_ok_absorb [simp]: "ports_ok (absorb s) = ports_ok s"
  by (simp add: ports_ok_def)

lemma ports_ok_put: "ports_ok s \<Longrightarrow> tcp_ok p \<Longrightarrow> ports_ok (tcp_put r p s)"
  by (cases r) (simp_all add: ports_ok_def)

lemma ports_quiet: "quiet s s' \<Longrightarrow> ports_ok s' = ports_ok s \<and> tcp_get r s' = tcp_get r s"
  by (cases r) (simp_all add: ports_ok_def quiet_agent)

lemma track_on_tcp:
  assumes "track tcp_inv (\<lambda>s. P (snd s)) m (\<lambda>v s. Q v (snd s))" "moves obj_le m"
  shows "track ports_ok (\<lambda>s. P (tcp_get r s)) (on_tcp r m) (\<lambda>v s. Q v (tcp_get r s))"
proof -
  have "ports_ok s' \<and> (\<forall>x. v = Val x \<longrightarrow> Q x (tcp_get r s'))"
    if s: "ports_ok s" "P (tcp_get r s)" "on_tcp r m s = (v, s')" for s s' v
  proof -
    obtain t where t: "m (s, tcp_get r s) = (v, t)" "s' = absorb (tcp_put r (snd t) (fst t))"
      using on_Val(1) [OF s(3)] by blast
    have "quiet s (fst t)" using movesD [OF assms(2) t(1)] by (simp add: obj_le_def)
    with s(1) have "ports_ok (fst t)" by (simp add: ports_quiet)
    moreover have "tcp_inv t \<and> (\<forall>x. v = Val x \<longrightarrow> Q x (snd t))"
      using trackD [OF assms(1) t(1)] s(1,2) ports_ok_get by (auto simp: tcp_inv_def)
    ultimately show ?thesis using t(2) by (auto simp: tcp_inv_def intro: ports_ok_put)
  qed
  then show ?thesis by (intro trackI) blast+
qed

lemma moves_ports_tcp:
  "moves (preserves tcp_inv) m \<Longrightarrow> moves obj_le m \<Longrightarrow> moves (preserves ports_ok) (on_tcp r m)"
  unfolding track_moves using track_on_tcp [of "\<lambda>_. True" m "\<lambda>_ _. True" r] by simp

lemma moves_ports_mp: "moves obj_le m \<Longrightarrow> moves (preserves ports_ok) (on_mp m)"
proof (rule movesI)
  fix s :: "'a agent_scheme"
  assume m: "moves obj_le m"
  obtain v s' where run: "on_mp m s = (v, s')" by fastforce
  from on_Val(2) [OF run] obtain t where t: "m (s, devMP s) = (v, t)" "s' = absorb (devMP_update (\<lambda>_. snd t) (fst t))"
    by blast
  from movesD [OF m t(1)] have "quiet s (fst t)" by (simp add: obj_le_def)
  from ports_quiet [OF this] t(2) run show "preserves ports_ok s (snd (on_mp m s))"
    by (simp add: preserves_def ports_ok_def)
qed

lemma moves_ports_quiet: "moves quiet m \<Longrightarrow> moves (preserves ports_ok) (shared m)"
  by (simp add: moves_def preserves_def shared_def case_prod_beta) (metis ports_quiet)

lemma moves_ports_channel [hoare_rules]:
  "moves (preserves ports_ok) (ch_Read (agent_channel c) n)" "moves (preserves ports_ok) (ch_Write (agent_channel c) bs)"
  "moves (preserves ports_ok) (ch_SetTimeOut (agent_channel c) t)" "moves (preserves ports_ok) (ch_Open (agent_channel c))"
  "moves (preserves ports_ok) (ch_Lock (agent_channel c))" "moves (preserves ports_ok) (ch_Unlock (agent_channel c))"
  by (cases c; simp add: tcp_channel_def serial_channel_def SerialPort_Lock_def SerialPort_Unlock_def SerialPort_SetTimeOut_def;
      intro moves_ports_tcp moves_ports_mp preorder_obj_le preorder_preserves hoare_rules)+

lemma moves_ports_recv [hoare_rules]:
  "moves (\<lambda>s s'. preserves ports_ok (fst s) (fst s')) (ReceiveFrameFrom (agent_channel c))"
  "moves (\<lambda>s s'. preserves ports_ok (fst s) (fst s')) (ReceiveAckFrom (agent_channel c))"
  by (intro moves_ReceiveFrameFrom moves_ReceiveAckFrom preorder_preserves hoare_rules)+

lemma preorder_fst_ports [simp, intro]: "preorder_rel (\<lambda>s s'. preserves ports_ok (fst s) (fst s'))"
  by (rule preorder_fst) simp

lemma moves_ports_call [hoare_rules]:
  "moves (\<lambda>s s'. preserves ports_ok (fst s) (fst s')) m \<Longrightarrow> moves (preserves ports_ok) (call_try m x)"
  "moves (\<lambda>s s'. preserves ports_ok (fst s) (fst s')) m \<Longrightarrow> moves (preserves ports_ok) (call m x)"
  by (auto intro: moves_call_try moves_call)

lemma moves_ports_send [hoare_rules]:
  "moves (preserves ports_ok) (recv c p)" "moves (preserves ports_ok) (SendTo (agent_channel c) q)"
  unfolding recv_def SendTo_def case_prod_beta by (intro preorder_preserves hoare_rules)+

lemma moves_ports_shared [hoare_rules]:
  "moves (preserves ports_ok) (shared (usleep n))" "moves (preserves ports_ok) (shared (sleep n))"
  by (intro moves_ports_quiet hoare_rules)+

lemma moves_ports_pause [hoare_rules]: "moves (preserves ports_ok) (pause t d)"
  unfolding pause_def by (intro preorder_preserves hoare_rules)

lemma track_Close: "track tcp_inv (\<lambda>_. True) TCPPort_Close (\<lambda>_ s. idle (snd s))"
  by (rule trackI)
    (auto simp: TCPPort_Close_def run_defs tcp_defs idle_def tcp_inv_def tcp_ok_def split: prod.splits if_splits)

lemma track_tcp_Close: "track ports_ok (\<lambda>_. True) (tcp_Close r) (\<lambda>_ s. idle (tcp_get r s))"
  unfolding tcp_Close_def
  using track_on_tcp [of "\<lambda>_. True" TCPPort_Close "\<lambda>_ p. idle p" r] by (simp add: track_Close hoare_rules)

text \<open>A negotiated port is a 16-bit number, and it is not zero only when the channel is closed again.\<close>

definition neg_post :: "tcp_ref \<Rightarrow> int \<Rightarrow> 'z agent_scheme \<Rightarrow> bool" where
  "neg_post r v s = (0 \<le> v \<and> v < 65536 \<and> (v \<noteq> 0 \<longrightarrow> idle (tcp_get r s)))"

lemma neg_post_0 [simp]: "neg_post r 0 s"
  by (simp add: neg_post_def)

lemma uint16_range: "uint (n :: u16) < 65536"
  using unsigned_less [of n, where ?'a = int] by simp

lemma track_accept: "track ports_ok P (accept_port r cmd) (neg_post r)"
  unfolding accept_port_def
proof (rule track_thn [where R = "\<lambda>_ _. True"])
  show "track ports_ok P (catch
            (bnd (gets Machine) (\<lambda>m.
             bnd (of_opt (CommandType cmd)) (\<lambda>eCmd.
             bnd (of_opt (GetAssignedPort cmd)) (\<lambda>nNum.
             bnd (of_opt (Packet_Ack True m eCmd nNum)) (\<lambda>ack.
               thn (SendTo (agent_channel (Tcp r)) ack) (ret ()))))))
            (\<lambda>e. ret ())) (\<lambda>_ _. True)"
    by (rule track_keep) (intro preorder_preserves hoare_rules)
qed (rule track_thn [OF track_tcp_Close], rule track_bnd [where R = "\<lambda>n s. idle (tcp_get r s)"],
    auto intro!: track_of_opt track_ret simp: neg_post_def uint16_range)

lemma track_negotiate: "track ports_ok (\<lambda>_. True) (negoiateChannel r n) (neg_post r)"
  unfolding negoiateChannel_def
proof (rule track_loop [where P = "\<lambda>_ _. True"])
  fix v
  let ?V = "\<lambda>x :: (int \<times> nat \<times> nat) + int. case x of Inl _ \<Rightarrow> \<lambda>_. True | Inr v \<Rightarrow> neg_post r v"
  have failed: "track ports_ok (\<lambda>_. True) (open_failed n tm v) ?V" for tm
    unfolding open_failed_def case_prod_beta Let_def
    by (intro track_bnd [where R = "\<lambda>_ _. True"] track_gets track_if track_thn [where R = "\<lambda>_ _. True"] track_ret
        track_keep moves_if preorder_preserves hoare_rules) simp_all
  have got: "track ports_ok (\<lambda>_. True)
      (if length cmd = 0 then let rd = snd (snd v) + 1 in
         if rd = 4 then ret (Inr 0) else ret (Inl (next_port n (fst v), 0, rd))
       else bnd (accept_port r cmd) (\<lambda>n. ret (Inr n))) ?V" for cmd
    unfolding Let_def
    by (intro track_if track_ret track_bnd [OF track_accept]) simp_all
  show "track ports_ok (\<lambda>_. True) (negotiate_body r n v) ?V"
    unfolding negotiate_body_def case_prod_beta
    by (intro track_bnd [where R = "\<lambda>_ _. True"] track_gets track_if failed track_thn [where R = "\<lambda>_ _. True"] got
        track_keep moves_ports_tcp hoare_rules) simp_all
qed

section \<open>The data channel and the control channel\<close>

definition connected_post :: "tcp_ref \<Rightarrow> int \<Rightarrow> 'z agent_scheme \<Rightarrow> bool" where
  "connected_post r v s = (if v = 0 then bConnected (tcp_get r s) else idle (tcp_get r s))"

lemma connected_post_cases [simp]:
  "connected_post r 0 = (\<lambda>s. bConnected (tcp_get r s))"
  "v \<noteq> 0 \<Longrightarrow> connected_post r v = (\<lambda>s. idle (tcp_get r s))"
  by (simp_all add: connected_post_def fun_eq_iff)

lemma track_set_remote: "track ports_ok (\<lambda>s. idle (tcp_get r s)) (set_remote r n) (\<lambda>_ s. idle (tcp_get r s))"
  unfolding set_remote_def
  by (rule track_modify) (cases r; simp add: ports_ok_def SetRemotePort_def tcp_ok_def idle_def)

lemma track_on_SetTimeOut:
  "track ports_ok (\<lambda>s. idle (tcp_get r s)) (on_tcp r (TCPPort_SetTimeOut t)) (\<lambda>_ s. idle (tcp_get r s))"
  by (rule track_on_tcp [where P = idle and Q = "\<lambda>_. idle"], rule track_SetTimeOut) (auto simp: idle_def intro: hoare_rules)

lemma track_on_Connect:
  "track ports_ok (\<lambda>s. idle (tcp_get r s)) (on_tcp r TCPPort_Connect) (connected_post r)"
proof -
  have "track tcp_inv (\<lambda>s. idle (snd s)) TCPPort_Connect (\<lambda>v s. if v = 0 then bConnected (snd s) else idle (snd s))"
    by (rule track_weaken [OF track_Connect]) (auto simp: connect_post_def split: if_splits)
  from track_on_tcp [where P = idle and Q = "\<lambda>v p. if v = 0 then bConnected p else idle p", OF this moves_tcp_Connect]
  show ?thesis unfolding connected_post_def .
qed

lemma track_connect_assigned:
  "track ports_ok (\<lambda>s. idle (tcp_get r s)) (connect_assigned r n) (\<lambda>x. connected_post r (fst x))"
  unfolding connect_assigned_def
  by (rule track_thn [OF track_set_remote], rule track_bnd [where R = "\<lambda>_ s. idle (tcp_get r s)"], rule track_gets, assumption,
      rule track_thn [OF track_on_SetTimeOut], rule track_bnd [where R = "\<lambda>_ s. idle (tcp_get r s)"], rule track_gets, assumption,
      rule track_bnd [OF track_on_Connect]) (auto intro: track_ret)

lemma track_pause: "track ports_ok (\<lambda>s. idle (tcp_get r s)) (pause t d) (\<lambda>_ s. idle (tcp_get r s))"
proof -
  have "track ports_ok (\<lambda>s. idle (tcp_get r s)) (shared (usleep n)) (\<lambda>_ s. idle (tcp_get r s))" for n
    using movesD [OF moves_quiet_usleep] ports_quiet by (intro trackI; fastforce dest!: shared_Val)
  then show ?thesis unfolding pause_def by (intro track_if track_ret)
qed

text \<open>What a call of \<open>NegoiateDataChannel\<close> reports, and the loops inside it.\<close>

definition data_post :: "tcp_ref \<Rightarrow> int \<Rightarrow> 'z agent_scheme \<Rightarrow> bool" where
  "data_post r v s =
     (v = 0 \<and> IsPowerOff s \<or> 0 < v \<and> v < 65536 \<and> bConnected (tcp_get r s) \<and> \<not> bExtCommunicationError s)"

lemma tcp_get_flags [simp]:
  "tcp_get r (bExtCommunicationError_update f s) = tcp_get r s" "tcp_get r (bControlDone_update g s) = tcp_get r s"
  by (cases r; simp)+

lemma ports_ok_flags [simp]:
  "ports_ok (bExtCommunicationError_update f s) = ports_ok s" "ports_ok (bControlDone_update g s) = ports_ok s"
  by (simp_all add: ports_ok_def)

lemma track_data_try:
  assumes "0 < n" "n < 65536"
  shows "track ports_ok (\<lambda>s. idle (tcp_get r s)) (data_try r n)
    (\<lambda>x. case x of Some y \<Rightarrow> (case y of Some v \<Rightarrow> data_post r v | None \<Rightarrow> \<lambda>s. idle (tcp_get r s)) | None \<Rightarrow> \<lambda>s. idle (tcp_get r s))"
  unfolding data_try_def case_prod_beta
proof (rule track_bnd [OF track_connect_assigned], rule track_if)
  fix x :: "int \<times> int \<times> timeval"
  assume "fst x = 0"
  then show "track ports_ok (connected_post r (fst x))
      (thn (modify (bExtCommunicationError_update (\<lambda>_. False))) (ret (Some (Some n))))
      (\<lambda>x. case x of Some y \<Rightarrow> (case y of Some v \<Rightarrow> data_post r v | None \<Rightarrow> \<lambda>s. idle (tcp_get r s)) | None \<Rightarrow> \<lambda>s. idle (tcp_get r s))"
    using assms by (intro track_thn [where R = "\<lambda>_ s. data_post r n s"] track_modify track_ret)
      (auto simp: data_post_def)
next
  fix x :: "int \<times> int \<times> timeval"
  assume "fst x \<noteq> 0"
  then show "track ports_ok (connected_post r (fst x))
      (bnd (gets IsPowerOff) (\<lambda>off. if off then ret (Some (Some 0))
         else bnd (gets gettimeofday) (\<lambda>tmNow. thn (pause (fst (snd x)) (timersub tmNow (snd (snd x)))) (ret None))))
      (\<lambda>x. case x of Some y \<Rightarrow> (case y of Some v \<Rightarrow> data_post r v | None \<Rightarrow> \<lambda>s. idle (tcp_get r s)) | None \<Rightarrow> \<lambda>s. idle (tcp_get r s))"
    by (intro track_bnd [where R = "\<lambda>off s. idle (tcp_get r s) \<and> (off \<longrightarrow> IsPowerOff s)"] track_gets track_if track_ret
        track_bnd [where R = "\<lambda>_ s. idle (tcp_get r s)"] track_thn [OF track_pause]) (auto simp: data_post_def)
qed

lemma track_data_rounds:
  "track (ports_ok :: 'z agent_scheme \<Rightarrow> bool) (neg_post r n) (data_rounds r k n) (\<lambda>x. case x of Some v \<Rightarrow> data_post r v | None \<Rightarrow> \<lambda>_. True)"
proof (induction k arbitrary: n)
  case 0
  show ?case by (simp add: track_ret)
next
  case (Suc k)
  let ?V = "\<lambda>x. case x of Some v \<Rightarrow> data_post r v | None \<Rightarrow> \<lambda>_. True"
  have tries: "track (ports_ok :: 'z agent_scheme \<Rightarrow> bool) (neg_post r n) (attempts 3 (data_try r n) None)
      (\<lambda>y. case y of Some v \<Rightarrow> data_post r v | None \<Rightarrow> \<lambda>s. idle (tcp_get r s))" if "n \<noteq> 0"
  proof (cases "0 < n \<and> n < 65536")
    case True
    then show ?thesis
      using that by (intro track_weaken [OF track_attempts [OF track_data_try]]) (auto simp: neg_post_def)
  next
    case False
    with that show ?thesis by (auto simp: track_def neg_post_def)
  qed
  have again: "track (ports_ok :: 'z agent_scheme \<Rightarrow> bool) (\<lambda>s. idle (tcp_get r s))
      (bnd (gets IsPowerOff) (\<lambda>off. if off then ret (Some 0)
         else bnd (gets nDataPort) (\<lambda>n. bnd (negoiateChannel r n) (\<lambda>n. data_rounds r k n)))) ?V"
    by (rule track_bnd [where R = "\<lambda>off s. off \<longrightarrow> IsPowerOff s"], rule track_gets, simp, rule track_if,
        rule track_ret, simp add: data_post_def, rule track_bnd [where R = "\<lambda>_ _. True"], rule track_gets, simp,
        rule track_bnd [OF track_negotiate], rule Suc)
  show ?case
    unfolding data_rounds.simps
    by (rule track_if, simp add: track_ret, rule track_bnd [OF tries]) (auto split: option.split intro: track_ret again)
qed

lemma track_wait: "track ports_ok (\<lambda>_. True) wait_control (\<lambda>go s. \<not> go \<longrightarrow> IsPowerOff s)"
  unfolding wait_control_def
proof (rule track_loop [where P = "\<lambda>_ _. True"])
  fix u
  show "track ports_ok (\<lambda>_. True) (wait_body u)
      (\<lambda>x. case x of Inl _ \<Rightarrow> \<lambda>_. True | Inr go \<Rightarrow> (\<lambda>s. \<not> go \<longrightarrow> IsPowerOff s))"
    unfolding wait_body_def
    by (intro track_bnd [where R = "\<lambda>_ _. True"] track_gets track_if track_ret track_thn [where R = "\<lambda>_ _. True"]
        track_keep track_bnd [where R = "\<lambda>off s. off \<longrightarrow> IsPowerOff s"] hoare_rules) auto
qed

lemma track_NegoiateDataChannel:
  "track ports_ok (\<lambda>_. True) (NegoiateDataChannel r)
     (\<lambda>v s. data_post r v s \<or> v = -1 \<and> (bExtCommunicationError s \<or> IsPowerOff s))"
  unfolding NegoiateDataChannel_def
proof (rule track_bnd [OF track_wait], rule track_if, rule track_ret, simp add: data_post_def,
    rule track_bnd [where R = "\<lambda>_ _. True"], rule track_gets, simp, rule track_bnd [OF track_negotiate],
    rule track_bnd [OF track_data_rounds])
  fix x
  show "track ports_ok (case x of Some v \<Rightarrow> data_post r v | None \<Rightarrow> \<lambda>_. True)
     (case x of Some v \<Rightarrow> ret v | None \<Rightarrow> bnd (gets IsPowerOff) (\<lambda>off.
        thn (if \<not> off then modify (bExtCommunicationError_update (\<lambda>_. True)) else ret ()) (ret (-1))))
     (\<lambda>v s. data_post r v s \<or> v = -1 \<and> (bExtCommunicationError s \<or> IsPowerOff s))"
    by (cases x)
      (auto intro!: track_ret track_bnd [where R = "\<lambda>off s. off = IsPowerOff s"] track_gets track_if track_modify
        track_thn [where R = "\<lambda>_ s. bExtCommunicationError s \<or> IsPowerOff s"])
qed

definition control_post :: "tcp_ref \<Rightarrow> bool \<Rightarrow> 'z agent_scheme \<Rightarrow> bool" where
  "control_post r ok s = (ok \<longrightarrow> bConnected (tcp_get r s) \<and> bControlDone s \<and> \<not> bExtCommunicationError s)"

lemma track_control_try:
  "track ports_ok (\<lambda>s. idle (tcp_get r s)) (control_try r n)
    (\<lambda>x. case x of Some ok \<Rightarrow> (\<lambda>s. control_post r ok s \<and> (\<not> ok \<longrightarrow> idle (tcp_get r s))) | None \<Rightarrow> \<lambda>s. idle (tcp_get r s))"
  unfolding control_try_def case_prod_beta
  by (rule track_bnd [OF track_connect_assigned], rule track_if,
      intro track_thn [where R = "\<lambda>_. control_post r True"] track_modify track_ret,
      auto simp: control_post_def intro!: track_bnd [where R = "\<lambda>_ s. idle (tcp_get r s)"] track_gets track_ret
        track_thn [OF track_pause])

lemma track_control_rounds: "track (ports_ok :: 'z agent_scheme \<Rightarrow> bool) (neg_post r n) (control_rounds r k n) (control_post r)"
proof (induction k arbitrary: n)
  case 0
  show ?case by (simp add: track_ret control_post_def)
next
  case (Suc k)
  have tries: "track (ports_ok :: 'z agent_scheme \<Rightarrow> bool) (neg_post r n) (attempts 3 (control_try r n) False)
      (\<lambda>ok s. control_post r ok s \<and> (\<not> ok \<longrightarrow> idle (tcp_get r s)))" if "n \<noteq> 0"
    using that by (intro track_weaken [OF track_attempts [OF track_control_try]]) (auto simp: neg_post_def control_post_def)
  show ?case
    unfolding control_rounds.simps
    by (rule track_if, simp add: track_ret control_post_def, rule track_bnd [OF tries], assumption, rule track_if,
        simp add: track_ret, rule track_bnd [where R = "\<lambda>_ _. True"], rule track_gets, simp, rule track_bnd [OF track_negotiate],
        rule Suc)
qed

lemma track_NegoiateControlChannel:
  "track ports_ok (\<lambda>_. True) (NegoiateControlChannel r)
     (\<lambda>_ s. bExtCommunicationError s \<or> bConnected (tcp_get r s) \<and> bControlDone s)"
  unfolding NegoiateControlChannel_def
  by (rule track_bnd [where R = "\<lambda>_ _. True"], rule track_gets, simp, rule track_bnd [OF track_negotiate],
      rule track_bnd [OF track_control_rounds], rule track_if, rule track_ret, simp add: control_post_def, rule track_modify)
    simp

section \<open>No exception escapes\<close>

lemma no_throw_shared: "no_throw m \<Longrightarrow> no_throw (shared m)"
  by (simp add: no_throw_def shared_def case_prod_beta)

lemma no_throw_posix: "no_throw (usleep n)" "no_throw (sleep n)" "no_throw (settimeofday tv)"
  unfolding usleep_def sleep_def settimeofday_def by (intro no_throw_rules no_throw_syscall)+

lemma no_throw_TCPPort_Open: "no_throw (TCPPort_Open h n)"
  unfolding TCPPort_Open_def TCPPort_Connect_def TCPPort_SetTimeOut_def TCPPort_Close_def
    touch_def getp_def setp_def emit_def
  by (intro no_throw_rules no_throw_syscall no_throw_connect_loop)

lemma no_throw_tcp:
  "no_throw TCPPort_Connect" "no_throw (TCPPort_SetTimeOut t)" "no_throw TCPPort_Close"
  unfolding TCPPort_Connect_def TCPPort_SetTimeOut_def TCPPort_Close_def touch_def getp_def setp_def emit_def
  by (intro no_throw_rules no_throw_syscall no_throw_connect_loop)+

lemma no_throw_on: "no_throw m \<Longrightarrow> no_throw (on_tcp r m)" "no_throw k \<Longrightarrow> no_throw (on_mp k)"
  unfolding on_tcp_def on_mp_def by (auto intro: no_throw_shared no_throw_on_obj)

lemmas no_throw_intros = no_throw_rules no_throw_shared no_throw_posix no_throw_TCPPort_Open no_throw_tcp no_throw_on

lemma no_throw_negotiate: "no_throw (negoiateChannel r n)"
  unfolding negoiateChannel_def negotiate_body_def open_failed_def accept_port_def tcp_Close_def case_prod_beta Let_def
  by (intro no_throw_intros)

lemma no_throw_connect_assigned: "no_throw (connect_assigned r n)"
  unfolding connect_assigned_def set_remote_def by (intro no_throw_intros)

lemma no_throw_data_rounds: "no_throw (data_rounds r k n)"
  by (induction k arbitrary: n)
    (auto simp: data_try_def pause_def case_prod_beta simp del: attempts.simps
      intro!: no_throw_intros no_throw_negotiate no_throw_connect_assigned)

lemma no_throw_control_rounds: "no_throw (control_rounds r k n)"
  by (induction k arbitrary: n)
    (auto simp: control_try_def pause_def case_prod_beta simp del: attempts.simps
      intro!: no_throw_intros no_throw_negotiate no_throw_connect_assigned)

lemma no_throw_channels: "no_throw (NegoiateDataChannel r)" "no_throw (NegoiateControlChannel r)"
  unfolding NegoiateDataChannel_def NegoiateControlChannel_def wait_control_def wait_body_def
  by (intro no_throw_intros no_throw_negotiate no_throw_data_rounds no_throw_control_rounds)+

section \<open>Main properties\<close>

text \<open>An agent with consistent ports, for concrete runs.\<close>

definition agent1 :: "reply list \<Rightarrow> agent" where
  "agent1 rs =
     modem.extend (modem1 rs)
       (agent.fields False False True 1 ''server'' 0 20 600 (tv_of_usec 0) (tv_of_usec 0) (tv_of_usec 0) (tv_of_usec 0)
         SerialPort0 TCPPort0 TCPPort0 [] 50101 50001 20 [])"

text \<open>
  Negotiation always ends.  Whatever the network does, twenty-four attempts are enough: allowing more
  rounds never changes the outcome.
\<close>

lemma negotiation_ends:
  assumes "24 \<le> k"
  shows "loopN k (negotiate_body r n) (n, 0, 0) s = negoiateChannel r n s"
proof -
  have "loopN k (negotiate_body r n) (n, 0, 0) s = loopN 24 (negotiate_body r n) (n, 0, 0) s"
    by (rule loopN_measure [where J = within_tries and \<nu> = "\<lambda>v s. attempts_left v"], rule negotiate_rounds)
      (use assms in \<open>simp_all add: attempts_left_def within_tries_def\<close>)
  then show ?thesis by (simp add: negotiate_bounded)
qed

lemma negotiation_ends_witness:
  "loopN 30 (negotiate_body DataPort 50001) (50001, 0, 0) (agent1 []) = negoiateChannel DataPort 50001 (agent1 [])"
  by (rule negotiation_ends) simp

text \<open>
  C10: what the result of \<open>NegoiateDataChannel\<close> means, whatever the network, the modem and the other threads do.
  It never throws and keeps the ports consistent.  It returns zero only when the modem is off, minus one
  only when the communication error is raised or the modem is off, and otherwise a port number, with
  the channel connected and no communication error.
\<close>

theorem data_channel_result:
  assumes "ports_ok s" "NegoiateDataChannel r s = (x, s')"
  shows "(\<forall>e. x \<noteq> Throw e) \<and> ports_ok s' \<and>
    (\<forall>v. x = Val v \<longrightarrow>
       v = 0 \<and> IsPowerOff s' \<or> v = -1 \<and> (bExtCommunicationError s' \<or> IsPowerOff s') \<or>
       0 < v \<and> v < 65536 \<and> bConnected (tcp_get r s') \<and> \<not> bExtCommunicationError s')"
  using trackD [OF track_NegoiateDataChannel assms(2,1)] no_throwD [OF no_throw_channels(1)] assms(2)
  by (auto simp: data_post_def)

lemma refused_runs:
  "fst (NegoiateDataChannel DataPort ((agent1 (replicate 6 (reply0 (-1))))\<lparr>bPowerOff := False\<rparr>)) = Val (-1) \<and>
   \<not> IsPowerOff (snd (NegoiateDataChannel DataPort ((agent1 (replicate 6 (reply0 (-1))))\<lparr>bPowerOff := False\<rparr>)))"
  by code_simp

theorem data_channel_result_witness:
  "bExtCommunicationError (snd (NegoiateDataChannel DataPort ((agent1 (replicate 6 (reply0 (-1))))\<lparr>bPowerOff := False\<rparr>)))"
proof -
  have "ports_ok ((agent1 (replicate 6 (reply0 (-1))))\<lparr>bPowerOff := False\<rparr>)"
    by (simp add: ports_ok_def agent1_def agent.defs modem1_def modem.defs world.defs tcp_ok_def TCPPort0_def)
  from data_channel_result [OF this surjective_pairing] refused_runs show ?thesis by force
qed

lemma cdiv_pos: "0 \<le> a \<Longrightarrow> 0 < b \<Longrightarrow> cdiv a b = Some (a div b)"
  by (cases "a = 0") (simp_all add: cdiv_def)



lemma tv_usecs_diff: "tv_usecs (timersub a b) = wrap32 (usec_of_tv a - usec_of_tv b)"
  by (metis tv_usecs_def usec_of_tv_def usec_timersub)



end
