(* ===== verification/Protocol.thy ===== *)
theory Protocol
  imports Negotiation Frames
begin

text \<open>
  \<open>class Protocol\<close> (Protocol.h, Protocol.cpp), second part: the dialogue with the monitoring post on the serial
  port and with the server on the two TCP ports.  A method with a \<open>Packet&\<close> result is a program over
  the state of the agent and that packet.

  The arguments of the log macros are evaluated, so their reads of packet fields are part of the
  model; the output is not.
\<close>

section \<open>Dialogue with the monitoring post\<close>

definition Protocol_GetMPTime :: "('z, int) aprog" where
  "Protocol_GetMPTime =
     bnd (gets Machine) (\<lambda>m.
     thn (SendTo (agent_channel DevMP) (SetCommand (cmdWord GetTime) m))
       (thn (on_mp (SerialPort_SetTimeOut 3000000))
         (bnd (recv DevMP []) (\<lambda>timeAnswer.
            if length timeAnswer \<noteq> 0 then of_opt (GetMPTime timeAnswer) else ret 0))))"

definition GetMPIntervalSecond :: "('z, int) aprog" where
  "GetMPIntervalSecond =
     bnd (gets Machine) (\<lambda>m.
     thn (SendTo (agent_channel DevMP) (SetCommand (cmdWord GetCondition) m))
       (thn (on_mp (SerialPort_SetTimeOut 10000000))
         (bnd (recv DevMP []) (\<lambda>timeAnswer.
            if length timeAnswer \<noteq> 0 then bnd (of_opt (GetInterval timeAnswer)) (\<lambda>n. ret (n * 60)) else ret 120))))"

text \<open>Following the clock of the monitoring post when it differs by more than five seconds.\<close>

definition adjust_clock :: "int \<Rightarrow> ('z, unit) aprog" where
  "adjust_clock nowMP =
     bnd (gets (\<lambda>s. tv_sec (gettimeofday s))) (\<lambda>nowLocal.
       let dt = wrap32 (if nowMP > nowLocal then nowMP - nowLocal else nowLocal - nowMP) in
       if nowMP \<noteq> 0 \<and> dt > 5 then
         thn (shared (settimeofday \<lparr>tv_sec = nowMP, tv_usec = 0\<rparr>)) (ret ())
       else ret ())"

definition wait_sample :: "int \<Rightarrow> ('z, unit) aprog" where
  "wait_sample nowMP =
     bnd (gets (\<lambda>s. tv_sec (tmCurrentDataActive s))) (\<lambda>t.
       if nowMP \<noteq> 0 \<and> nowMP < t then
         (let dt = wrap32 (t - nowMP) in if dt > 0 \<and> dt < 10 then shared (sleep (dt + 1)) else ret ())
       else ret ())"

text \<open>One try of the request: \<open>Some True\<close> leaves the loop with data.\<close>

definition request_try :: "chan_ref \<Rightarrow> packet \<Rightarrow> ('z agent_scheme \<times> packet, bool option) prog" where
  "request_try c request =
     catch
       (thn (outer (SendTo (agent_channel c) request))
         (thn (ReceiveFrameFrom (agent_channel c))
           (bnd (gets snd) (\<lambda>data.
            bnd (of_opt (FrameCommandType data)) (\<lambda>k.
            thn (if k \<noteq> DataRequest then ReceiveFrameFrom (agent_channel c) else ret ())
              (bnd (gets (\<lambda>s. length (snd s))) (\<lambda>n. ret (if n \<noteq> 0 then Some True else None))))))))
       (\<lambda>e. ret None)"

text \<open>The part after the timer is set.\<close>

definition request_data :: "chan_ref \<Rightarrow> ('z agent_scheme \<times> packet, unit) prog" where
  "request_data c =
     bnd (gets (\<lambda>(s, data). Machine s)) (\<lambda>m.
     thn (outer (ch_SetTimeOut (agent_channel c) 1000000))
       (thn (outer (ch_Lock (agent_channel c)))
         (bnd (attempts 3 (request_try c (SetCommand (cmdWord DataRequest) m)) False) (\<lambda>got.
          thn (outer (ch_Unlock (agent_channel c)))
            (bnd (gets snd) (\<lambda>data.
             thn (outer (modify (bInCommunicationError_update (\<lambda>_. \<not> got \<and> length data = 0))))
               (bnd (of_opt (GetDataNo data)) (\<lambda>_. ret ()))))))))"

definition RequestCurrentData :: "chan_ref \<Rightarrow> ('z agent_scheme \<times> packet, unit) prog" where
  "RequestCurrentData c =
     bnd (gets (\<lambda>(s, data). isTimeForAction (tmCurrentDataActive s) s)) (\<lambda>due.
       if \<not> due then ret ()
       else
         bnd (outer Protocol_GetMPTime) (\<lambda>nowMP.
         thn (outer (adjust_clock nowMP))
           (thn (outer (wait_sample nowMP))
             (bnd (outer GetMPIntervalSecond) (\<lambda>n.
              bnd (gets (\<lambda>(s, data). setReservedTime (if n = 0 then 120 else n) True (gettimeofday s))) (\<lambda>x.
              bnd (of_opt x) (\<lambda>tm.
              thn (outer (modify (tmCurrentDataActive_update (\<lambda>_. tm)))) (request_data c))))))))"

text \<open>A valid status that differs from the last one is remembered and queued for the server.\<close>

definition note_status :: "packet \<Rightarrow> ('z, unit) aprog" where
  "note_status status =
     bnd (of_opt (GetStatus status)) (\<lambda>nNewStatus.
     bnd (of_opt (GetDataNo status)) (\<lambda>_.
     bnd (of_opt (IsValidStatus status)) (\<lambda>valid.
       if valid then
         bnd (gets nLastStatus) (\<lambda>old.
           if nNewStatus \<noteq> old then
             thn (modify (nLastStatus_update (\<lambda>_. nNewStatus)))
               (bnd (gets statusQueue) (\<lambda>q.
                bnd (of_opt (Push q status)) (\<lambda>q'. modify (statusQueue_update (\<lambda>_. q')))))
           else ret ())
       else ret ())))"

definition HealthCheck :: "chan_ref \<Rightarrow> ('z agent_scheme \<times> packet, unit) prog" where
  "HealthCheck c =
     bnd (gets (\<lambda>(s, status). isTimeForAction (tmHealthCheckActive s) s)) (\<lambda>due.
       if \<not> due then ret ()
       else
         bnd (gets (\<lambda>(s, status). setReservedTime 30 True (gettimeofday s))) (\<lambda>x.
         bnd (of_opt x) (\<lambda>tm.
         thn (outer (modify (tmHealthCheckActive_update (\<lambda>_. tm))))
           (bnd (gets (\<lambda>(s, status). MPHealthCheckCmdPacket (nLastStatus s) (Machine s)
                   (bInCommunicationError s) (bExtCommunicationError s))) (\<lambda>cmd.
            thn (outer (SendTo (agent_channel c) cmd))
              (thn (ReceiveFrameFrom (agent_channel c))
                (bnd (gets snd) (\<lambda>status. outer (note_status status)))))))))"

section \<open>Dialogue with the server\<close>

text \<open>\<open>sizeof(struct Packet::DataPacketFrame)\<close> bytes at \<open>GetData()\<close>.\<close>

definition frame_bytes :: "packet \<Rightarrow> byte list option" where
  "frame_bytes p = those (map (peek p) [0..<sizeof DataPacketFrame])"

definition pop_data :: "('z, unit) aprog" where
  "pop_data = bnd (gets dataQueue) (\<lambda>q. bnd (of_opt (Pop q)) (\<lambda>q'. modify (dataQueue_update (\<lambda>_. q'))))"

text \<open>
  The \<open>try\<close> block: the exception, if any, and the acknowledgement received so far.  The bytes of the
  record are fetched when \<open>Write\<close> is called.
\<close>

definition send_record :: "chan_ref \<Rightarrow> packet \<Rightarrow> ('z, ChannelException option \<times> packet) aprog" where
  "send_record c packet =
     bnd (of_opt (frame_bytes packet)) (\<lambda>bs.
     bnd (call_try (thn (outer (ch_Write (agent_channel c) bs)) (ReceiveAckFrom (agent_channel c))) [])
       (\<lambda>(x, ack). ret (case x of Inl _ \<Rightarrow> None | Inr e \<Rightarrow> Some e, ack)))"

text \<open>The handler for a lost connection: \<open>True\<close> is \<open>continue\<close>, \<open>False\<close> is \<open>return\<close>.\<close>

definition reconnect :: "chan_ref \<Rightarrow> ('z, bool) aprog" where
  "reconnect c =
     bnd (case c of Tcp r \<Rightarrow> bnd (NegoiateDataChannel r) (\<lambda>v. ret (v = 0))
          | DevMP \<Rightarrow> thn (ch_Open (agent_channel DevMP)) (ret False)) (\<lambda>stop.
       if stop then ret False
       else
         bnd (gets bExtCommunicationError) (\<lambda>err.
           if err then ret False
           else bnd (gets IsPowerOff) (\<lambda>off. ret (\<not> off))))"

text \<open>\<open>ack.IsAck() && ack.IsAckNo(packet.GetDataNo())\<close>.\<close>

definition acks :: "packet \<Rightarrow> packet \<Rightarrow> bool option" where
  "acks ack packet =
     (if IsAck ack then (case GetDataNo packet of None \<Rightarrow> None | Some n \<Rightarrow> IsAckNo ack n) else Some False)"

text \<open>After an exchange without lost connection: the record is popped when the acknowledgement names it.\<close>

definition judge_ack :: "packet \<Rightarrow> packet \<Rightarrow> nat \<Rightarrow> ('z, nat + unit) aprog" where
  "judge_ack packet ack retry =
     bnd (gets IsPowerOff) (\<lambda>off.
       if off then ret (Inr ())
       else
         bnd (of_opt (acks ack packet)) (\<lambda>ok.
           if ok then
             bnd (of_opt (GetAckNo ack)) (\<lambda>_. thn pop_data (ret (Inl 0)))
           else if retry > 3 then
             bnd (gets IsPowerOff) (\<lambda>off.
               thn (if \<not> off then modify (bExtCommunicationError_update (\<lambda>_. True)) else ret ()) (ret (Inr ())))
           else ret (Inl (retry + 1))))"

definition lost :: "ChannelException option \<Rightarrow> bool" where
  "lost x = (case x of Some e \<Rightarrow> bUnConnected e | None \<Rightarrow> False)"

definition send_body :: "chan_ref \<Rightarrow> nat \<Rightarrow> ('z, nat + unit) aprog" where
  "send_body c retry =
     bnd (gets dataQueue) (\<lambda>queue.
       if GetSize queue = 0 then ret (Inr ())
       else
         bnd (of_opt (Front queue)) (\<lambda>packet.
         bnd (of_opt (GetDataNo packet)) (\<lambda>_.
         bnd (of_opt (FrameCommandType packet)) (\<lambda>k.
           if k \<noteq> DataRequest then thn pop_data (ret (Inl retry))
           else
             bnd (send_record c packet) (\<lambda>(x, ack).
               if lost x then bnd (reconnect c) (\<lambda>again. if again then ret (Inl retry) else ret (Inr ()))
               else judge_ack packet ack retry)))))"

definition send_budget :: "'z agent_scheme \<Rightarrow> nat" where
  "send_budget s = 6 * aleft s + 5"

definition SendCurrentData :: "chan_ref \<Rightarrow> ('z, unit) aprog" where
  "SendCurrentData c =
     bnd (gets (\<lambda>s. setReservedTime (nIntervalSetting s) True (gettimeofday s))) (\<lambda>x.
     bnd (of_opt x) (\<lambda>tm.
     thn (modify (tmSendDataActive_update (\<lambda>_. tm)))
       (loop send_budget (send_body c) 0)))"

definition pop_status :: "('z, unit) aprog" where
  "pop_status = bnd (gets statusQueue) (\<lambda>q. bnd (of_opt (Pop q)) (\<lambda>q'. modify (statusQueue_update (\<lambda>_. q'))))"

text \<open>One exchange of a status report: whether it threw, and the acknowledgement received so far.\<close>

definition report_exchange :: "chan_ref \<Rightarrow> packet \<Rightarrow> ('z, bool \<times> packet) aprog" where
  "report_exchange c statusAnswer =
     bnd (call_try (thn (outer (SendTo (agent_channel c) statusAnswer)) (ReceiveAckFrom (agent_channel c))) [])
       (\<lambda>(x, ack). ret (case x of Inl _ \<Rightarrow> False | Inr e \<Rightarrow> True, ack))"

definition judge_report :: "packet \<Rightarrow> packet \<Rightarrow> nat \<Rightarrow> ('z, nat + unit) aprog" where
  "judge_report statusAnswer ack retry =
     bnd (of_opt (acks ack statusAnswer)) (\<lambda>ok.
       if ok then thn pop_status (ret (Inl 0))
       else if retry > 2 then
         thn (modify (bExtCommunicationError_update (\<lambda>_. True))) (ret (Inr ()))
       else ret (Inl (retry + 1)))"

definition report_body :: "chan_ref \<Rightarrow> nat \<Rightarrow> ('z, nat + unit) aprog" where
  "report_body c retry =
     bnd (gets statusQueue) (\<lambda>queue.
       if GetSize queue = 0 then ret (Inr ())
       else
         bnd (of_opt (Front queue)) (\<lambda>statusAnswer.
         bnd (of_opt (GetStatus statusAnswer)) (\<lambda>_.
         bnd (report_exchange c statusAnswer) (\<lambda>(threw, ack).
           judge_report statusAnswer ack (if threw then retry + 1 else retry)))))"

definition HealthCheckReport :: "chan_ref \<Rightarrow> ('z, unit) aprog" where
  "HealthCheckReport c =
     bnd (gets (\<lambda>s. bExtCommunicationError s \<or> \<not> ch_IsOpen (agent_channel c) s)) (\<lambda>skip.
       if skip then ret () else loop send_budget (report_body c) 0)"

definition GetCommand :: "chan_ref \<Rightarrow> packet \<Rightarrow> ('z, CommunicationCommand \<times> packet) aprog" where
  "GetCommand c cmd =
     bnd (recv c cmd) (\<lambda>cmd. bnd (of_opt (CommandType cmd)) (\<lambda>eCmd. ret (eCmd, cmd)))"

text \<open>
  The loop of \<open>TransferCmd\<close>: \<open>n\<close> is \<open>3 - retry\<close>, and the object is \<open>answer\<close>.  \<open>True\<close> when it was left by
  \<open>break\<close>, where \<open>retry\<close> is zero.
\<close>

definition transfer_try :: "chan_ref \<Rightarrow> chan_ref \<Rightarrow> packet \<Rightarrow> ('z agent_scheme \<times> packet, bool option) prog" where
  "transfer_try dev port cmd =
     bnd (gets (\<lambda>(s, answer). length answer)) (\<lambda>n0.
     thn (if n0 = 0 then
            catch (thn (outer (SendTo (agent_channel dev) cmd)) (ret ())) (\<lambda>e. ret ())
          else ret ())
       (catch
         (thn (if n0 = 0 then ReceiveFrameFrom (agent_channel dev) else ret ())
           (bnd (gets snd) (\<lambda>answer.
              if length answer \<noteq> 0 then thn (outer (SendTo (agent_channel port) answer)) (ret (Some True))
              else ret None)))
         (\<lambda>e. ret None)))"

definition TransferCmd :: "chan_ref \<Rightarrow> chan_ref \<Rightarrow> packet \<Rightarrow> ('z, unit) aprog" where
  "TransferCmd dev port cmd =
     thn (ch_Lock (agent_channel dev))
       (thn (ch_SetTimeOut (agent_channel dev) 5000000)
         (bnd (call (attempts 3 (transfer_try dev port cmd) False) []) (\<lambda>(sent_on, answer).
          thn (ch_Unlock (agent_channel dev))
            (if length answer = 0 then modify (bInCommunicationError_update (\<lambda>_. True))
             else if \<not> sent_on then modify (bExtCommunicationError_update (\<lambda>_. True))
             else modify (\<lambda>s. s\<lparr>bExtCommunicationError := False, bInCommunicationError := False\<rparr>)))))"

fun send_all :: "chan_ref \<Rightarrow> queue \<Rightarrow> ('z, unit) aprog" where
  "send_all c [] = ret ()"
| "send_all c (p # q) = thn (SendTo (agent_channel c) p) (send_all c q)"

text \<open>\<open>while (queue.GetSize() && ackNo >= queue.Front().GetDataNo()) queue.Pop();\<close>\<close>

fun pop_acked :: "u16 \<Rightarrow> queue \<Rightarrow> queue option" where
  "pop_acked ackNo [] = Some []"
| "pop_acked ackNo (p # q) =
     (case GetDataNo p of
        None \<Rightarrow> None
      | Some n \<Rightarrow> if unat n \<le> unat ackNo then pop_acked ackNo q else Some (p # q))"

definition queue_body :: "chan_ref \<Rightarrow> queue \<Rightarrow> ('z, queue + unit) aprog" where
  "queue_body c queue =
     thn (send_all c queue)
       (bnd (call (ReceiveAckFrom (agent_channel c)) []) (\<lambda>(_, ack).
        bnd (if IsValidAck ack \<and> IsAck ack then
               bnd (of_opt (GetAckNo ack)) (\<lambda>ackNo. of_opt (pop_acked ackNo queue))
             else ret queue) (\<lambda>queue.
          if GetSize queue \<noteq> 0 then ret (Inl queue) else ret (Inr ()))))"

definition SendQueueData :: "chan_ref \<Rightarrow> queue \<Rightarrow> ('z, unit) aprog" where
  "SendQueueData c queue = loop aleft (queue_body c) queue"

text \<open>
  The loop of \<open>HistoryDataTransfer\<close>, with its local variables; \<open>n\<close> is the number of rounds left,
  \<open>nEnd + 1 - nStart\<close>.
\<close>

fun history_rounds ::
  "chan_ref \<Rightarrow> chan_ref \<Rightarrow> nat \<Rightarrow> int \<Rightarrow> nat \<Rightarrow> queue \<Rightarrow> packet \<Rightarrow> packet \<Rightarrow> ('z, unit) aprog" where
  "history_rounds dev port 0 nStart count queue answer cmd = ret ()"
| "history_rounds dev port (Suc n) nStart count queue answer cmd =
     thn (ch_Lock (agent_channel dev))
       (thn (SendTo (agent_channel dev) cmd)
         (bnd (recv dev answer) (\<lambda>answer.
          thn (ch_Unlock (agent_channel dev))
            (bnd (of_opt (Push queue answer)) (\<lambda>queue.
             bnd (if count + 1 = 10 then thn (SendQueueData port queue) (ret []) else ret queue) (\<lambda>queue.
             bnd (of_opt (SetStartNum cmd (word_of_int (nStart + 1)))) (\<lambda>cmd.
               history_rounds dev port n (nStart + 1) (count + 1) queue answer cmd)))))))"

definition HistoryDataTransfer :: "chan_ref \<Rightarrow> chan_ref \<Rightarrow> packet \<Rightarrow> ('z, unit) aprog" where
  "HistoryDataTransfer dev port cmd =
     bnd (of_opt (GetStartNum cmd)) (\<lambda>nStart.
     bnd (of_opt (GetEndNum cmd)) (\<lambda>nEnd.
       history_rounds dev port (nat (nEnd + 1 - nStart)) nStart 0 [] [] cmd))"


section \<open>Bounds\<close>

lemma moves_ag_settime [hoare_rules]: "moves ag_le (shared (settimeofday tv))"
  by (intro moves_ag_quiet hoare_rules)

lemma moves_ag_mp_timeout [hoare_rules]: "moves ag_le (on_mp (SerialPort_SetTimeOut t))"
  unfolding SerialPort_SetTimeOut_def by (intro moves_ag_mp hoare_rules)

lemma Pop_length: "Pop q = Some q' \<Longrightarrow> length q = Suc (length q')"
  by (auto simp: Pop_def split: list.splits)

lemma pop_data_run: "pop_data s = (r, s') \<Longrightarrow> (\<exists>p q. dataQueue s = p # q \<and> s' = s\<lparr>dataQueue := q\<rparr>) \<or> s' = s \<and> r = Undef"
  by (auto simp: pop_data_def bnd_def gets_def of_opt_def modify_def Pop_def split: list.splits option.splits)

lemma pop_status_run:
  "pop_status s = (r, s') \<Longrightarrow> (\<exists>p q. statusQueue s = p # q \<and> s' = s\<lparr>statusQueue := q\<rparr>) \<or> s' = s \<and> r = Undef"
  by (auto simp: pop_status_def bnd_def gets_def of_opt_def modify_def Pop_def split: list.splits option.splits)

lemma moves_ag_pop [hoare_rules]: "moves ag_le pop_data" "moves ag_le pop_status"
  by (auto simp: moves_def pop_data_def pop_status_def bnd_def gets_def of_opt_def modify_def Pop_def ag_le_def aleft_def
      left_def split: list.splits option.splits)

lemma eats_pop: "eats aleft pop_data" "eats aleft pop_status"
  by (auto simp: eats_def aleft_def left_def dest!: pop_data_run pop_status_run)

lemma moves_ag_record [hoare_rules]:
  "moves ag_le (send_record c p)" "moves ag_le (report_exchange c p)"
  unfolding send_record_def report_exchange_def SendTo_def case_prod_beta
  by (intro preorder_ag_le preorder_fst_ag_le moves_fst_outer hoare_rules)+

lemma moves_ag_reconnect [hoare_rules]: "moves ag_le (reconnect c)"
  unfolding reconnect_def by (cases c; simp only: chan_ref.case; intro preorder_ag_le hoare_rules)

lemma moves_ag_judge [hoare_rules]: "moves ag_le (judge_ack p a k)"
  unfolding judge_ack_def by (intro preorder_ag_le hoare_rules)

lemma moves_ag_send_body [hoare_rules]: "moves ag_le (send_body c k)"
  unfolding send_body_def case_prod_beta by (intro preorder_ag_le hoare_rules)

lemma moves_ag_report_body [hoare_rules]: "moves ag_le (report_body c k)"
  unfolding report_body_def judge_report_def case_prod_beta Let_def by (intro preorder_ag_le hoare_rules)

lemma moves_ag_send_all [hoare_rules]: "moves ag_le (send_all c q)"
  by (induction q) (auto intro!: preorder_ag_le hoare_rules)

text \<open>
  A request for fewer than ten history records never touches the channel to the server: its run is the
  same whatever channel it is given, so the records it read from the post are not sent.
\<close>

lemma history_rounds_short:
  "count + n < 10 \<Longrightarrow>
   (history_rounds dev port n nStart count queue answer cmd :: ('z, unit) aprog) =
     history_rounds dev port' n nStart count queue answer cmd"
proof (induction n arbitrary: nStart count queue answer cmd)
  case (Suc n)
  then have "Suc count + n < 10" by simp
  from Suc.IH [OF this] have
    "(history_rounds dev port n m (Suc count) q a :: packet \<Rightarrow> ('z, unit) aprog) = history_rounds dev port' n m (Suc count) q a"
    for m q a by (intro ext) simp
  with Suc.prems show ?case by simp
qed simp

lemma HistoryDataTransfer_short:
  assumes "GetStartNum cmd = Some a" "GetEndNum cmd = Some b" "b - a < 9"
  shows "HistoryDataTransfer dev port cmd = HistoryDataTransfer dev port' cmd"
proof -
  have "nat (b + 1 - a) < 10" using assms(3) by simp
  then show ?thesis
    unfolding HistoryDataTransfer_def assms(1,2) by (simp add: prog_simps history_rounds_short [of 0 _ dev port _ _ _ _ port'])
qed

section \<open>Every loop ends\<close>

lemma eats_negotiate: "eats aleft (negoiateChannel r n)"
  unfolding negoiateChannel_def negotiate_body_def open_failed_def accept_port_def case_prod_beta Let_def
  by (intro eats_loop eats_bnd2 moves_ag_aleft preorder_ag_le hoare_rules
      eats_bnd1 [OF eats_on(1) [OF eats_Open moves_tcp_Open]])

lemma wait_False: "wait_control s = (Val False, s') \<Longrightarrow> aleft s' < aleft s"
proof -
  have "hoare (\<lambda>t. aleft t \<le> aleft s) wait_control (\<lambda>go t. \<not> go \<longrightarrow> aleft t < aleft s) (\<lambda>_ _. True)"
    unfolding wait_control_def
    by (rule hoare_loop [where I = "\<lambda>_ t. aleft t \<le> aleft s"], rule hoareI)
      (auto simp: wait_body_def bnd_eq_Val thn_def gets_def ret_def split: if_splits sum.split
        dest!: eatsD [OF eats_shared_sleep(1)])
  then show "wait_control s = (Val False, s') \<Longrightarrow> aleft s' < aleft s" by (auto dest: hoare_ValD)
qed

lemma eats_NegoiateDataChannel: "eats aleft (NegoiateDataChannel r)"
  unfolding eats_def
proof (intro allI impI)
  fix s v s'
  assume "NegoiateDataChannel r s = (Val v, s')"
  then obtain go s1 where s1: "wait_control s = (Val go, s1)"
    and rest: "(if \<not> go then ret 0 else
         bnd (gets nDataPort) (\<lambda>n.
         bnd (negoiateChannel r n) (\<lambda>nAssigned.
         bnd (data_rounds r 1 nAssigned) (\<lambda>x.
           case x of
             Some v \<Rightarrow> ret v
           | None \<Rightarrow>
               bnd (gets IsPowerOff) (\<lambda>off.
                 thn (if \<not> off then modify (bExtCommunicationError_update (\<lambda>_. True)) else ret ())
                   (ret (-1))))))) s1 = (Val v, s')"
    unfolding NegoiateDataChannel_def bnd_eq_Val by blast
  show "aleft s' < aleft s"
  proof (cases go)
    case True
    have "eats aleft (bnd (gets nDataPort) (\<lambda>n.
         bnd (negoiateChannel r n) (\<lambda>nAssigned.
         bnd (data_rounds r 1 nAssigned) (\<lambda>x.
           case x of
             Some v \<Rightarrow> ret v
           | None \<Rightarrow>
               bnd (gets IsPowerOff) (\<lambda>off.
                 thn (if \<not> off then modify (bExtCommunicationError_update (\<lambda>_. True)) else ret ())
                   (ret (-1)))))))"
      by (rule eats_bnd2, rule moves_ag_aleft, intro preorder_ag_le hoare_rules, rule eats_bnd1 [OF eats_negotiate],
          intro moves_ag_aleft preorder_ag_le hoare_rules)
    from eatsD [OF this] rest True have "aleft s' < aleft s1" by simp
    with movesD [OF moves_ag_wait s1] show ?thesis by (simp add: ag_le_def)
  next
    case False
    with rest s1 wait_False [of s s1] show ?thesis by (auto simp: ret_def)
  qed
qed

lemma eats_ser_Open0: "eats (\<lambda>s. left (fst s)) SerialPort_Open0"
  unfolding SerialPort_Open0_def SerialPort_Open_def
  by (intro eats_thn(2) eats_bnd2 eats_bnd1 [OF eats_outer_syscall] moves_obj_left preorder_obj_le hoare_rules)

lemma eats_Open_DevMP: "eats aleft (ch_Open (agent_channel DevMP))"
  by (simp add: serial_channel_def eats_on eats_ser_Open0 hoare_rules)

lemma eats_reconnect: "eats aleft (reconnect c)"
  unfolding reconnect_def
  by (cases c; simp only: chan_ref.case;
      rule eats_bnd1 [OF eats_bnd1 [OF eats_NegoiateDataChannel]] eats_bnd1 [OF eats_thn(1) [OF eats_Open_DevMP]];
      intro moves_ag_aleft preorder_ag_le hoare_rules)

text \<open>A round of the sending loops consumes something or is one more of at most four retries.\<close>

definition rounds_left :: "nat \<Rightarrow> 'z agent_scheme \<Rightarrow> nat" where
  "rounds_left retry s = 6 * aleft s + (5 - retry)"

lemma rounds_eaten: "aleft s' < aleft s \<Longrightarrow> rounds_left k' s' < rounds_left k s"
  by (simp add: rounds_left_def)

lemma judge_rounds: "judge_ack p a k s = (Val (Inl k'), s') \<Longrightarrow> aleft s' < aleft s \<or> k' = Suc k \<and> k \<le> 3 \<and> s' = s"
  by (auto simp: judge_ack_def bnd_eq_Val thn_def gets_def ret_def modify_def of_opt_def split: if_splits option.splits
      dest: eatsD [OF eats_pop(1)])

lemma send_rounds:
  assumes "send_body c k s = (Val (Inl k'), s')"
  shows "rounds_left k' s' < rounds_left k s"
proof -
  have judge: "rounds_left k' s' < rounds_left k s"
    if "send_record c p s = (Val y, s1)" "judge_ack p a k s1 = (Val (Inl k'), s')" for p a y s1
    using judge_rounds [OF that(2)] movesD [OF moves_ag_record(1) that(1)] by (auto simp: rounds_left_def ag_le_def)
  have again: "rounds_left l s' < rounds_left l' s"
    if "send_record c p s = (Val y, s1)" "reconnect c s1 = (Val b, s')" for p y s1 b l l'
    using eatsD [OF eats_reconnect that(2)] movesD [OF moves_ag_record(1) that(1)]
    by (intro rounds_eaten) (auto simp: ag_le_def)
  from assms show ?thesis
    by (auto simp: send_body_def bnd_eq_Val thn_def gets_def ret_def of_opt_def
        split: if_splits option.splits intro: judge again rounds_eaten dest: eatsD [OF eats_pop(1)])
qed

lemma judge_report_rounds:
  "judge_report p a k s = (Val (Inl k'), s') \<Longrightarrow> aleft s' < aleft s \<or> k' = Suc k \<and> k \<le> 2 \<and> s' = s"
  by (auto simp: judge_report_def bnd_eq_Val thn_def ret_def modify_def of_opt_def split: if_splits option.splits
      dest: eatsD [OF eats_pop(2)])

lemma report_rounds:
  assumes "report_body c k s = (Val (Inl k'), s')"
  shows "rounds_left k' s' < rounds_left k s"
proof -
  have judge: "rounds_left k' s' < rounds_left k s"
    if "report_exchange c p s = (Val y, s1)" "judge_report p a l s1 = (Val (Inl k'), s')" "k \<le> l" for p a y s1 l
    using judge_report_rounds [OF that(2)] movesD [OF moves_ag_record(2) that(1)] that(3)
    by (auto simp: rounds_left_def ag_le_def)
  from assms show ?thesis
    by (auto simp: report_body_def bnd_eq_Val gets_def ret_def of_opt_def split: if_splits option.splits
        intro!: judge)
qed

lemma send_budget_enough:
  "send_budget s < n \<Longrightarrow> loopN n (send_body c) 0 s = loop send_budget (send_body c) 0 s"
  "send_budget s < n \<Longrightarrow> loopN n (report_body c) 0 s = loop send_budget (report_body c) 0 s"
  by (rule loop_enough [where J = "\<lambda>_. True" and \<nu> = rounds_left],
      auto simp: rounds_left_def send_budget_def dest: send_rounds report_rounds)+

lemma consumes_queue: "consumes aleft (queue_body c)"
  unfolding queue_body_def case_prod_beta
  by (intro consumes_eats eats_thn(2) eats_bnd1 [OF eats_call [OF eats_ReceiveAckFrom]] moves_ag_aleft preorder_ag_le
      hoare_rules)




end
