(* ===== verification/DebugLog.thy ===== *)
theory DebugLog
  imports Packet
begin

text \<open>
  \<open>class TraceLog\<close> (DebugLog.h, DebugLog.cpp): formatting of log lines in a buffer that grows once, and
  their output.  The text of a message is the result of \<open>vsnprintf\<close> on a buffer that is large enough;
  whether \<open>malloc\<close> and \<open>realloc\<close> succeed is an argument.  The time zone of the device is UTC.
\<close>

section \<open>Levels\<close>

definition LP_NONE :: int where "LP_NONE = 0"
definition LP_TRACE :: int where "LP_TRACE = 1"
definition LP_DEBUG :: int where "LP_DEBUG = 2"
definition LP_INFO :: int where "LP_INFO = 3"
definition LP_NOTICE :: int where "LP_NOTICE = 4"
definition LP_WARNING :: int where "LP_WARNING = 5"
definition LP_ERROR :: int where "LP_ERROR = 6"
definition LP_CRITICAL :: int where "LP_CRITICAL = 7"
definition LP_ALERT :: int where "LP_ALERT = 8"
definition LP_EMERGENCY :: int where "LP_EMERGENCY = 9"

definition priorityNames :: "string list" where
  "priorityNames =
     [''Zero Priority'', ''TRACE'', ''DEBUG'', ''INFO'', ''NOTICE'', ''WARNING'', ''ERROR'', ''CRITICAL ERROR'',
      ''ALERT'', ''EMERGENCY'']"

section \<open>State\<close>

text \<open>The static members; \<open>sin\<close> is the port in host order at 16 bits and the text of the address.\<close>

record tracelog =
  nLogPort :: int
  sin_to :: "16 word \<times> string"
  sct :: int
  strTitle :: string
  szLogIP :: string
  nLevel :: int
  bLocal :: bool
  nCounter :: int

definition TraceLog_static :: tracelog where
  "TraceLog_static =
     \<lparr>nLogPort = 0, sin_to = (0, []), sct = -1, strTitle = [], szLogIP = [], nLevel = 0, bLocal = True,
      nCounter = 0\<rparr>"

text \<open>The descriptor that the destructor shuts down.\<close>

definition TraceLog_destroy :: "tracelog \<Rightarrow> int option" where
  "TraceLog_destroy t = (if sct t > 0 then Some (sct t) else None)"

text \<open>
  \<open>Init\<close> with the result of \<open>socket\<close> as an argument; the first result is the descriptor it closes.
  \<open>strncpy\<close> copies at most 49 characters into 50 bytes of which the last stays zero.  The test
  \<open>socket < 0\<close> compares the address of the function and never holds, so a failure is not reported.
\<close>

definition Init :: "string \<Rightarrow> string \<Rightarrow> int \<Rightarrow> int \<Rightarrow> tracelog \<Rightarrow> int option \<times> tracelog" where
  "Init Title szIP n socket_ret t =
     (if sct t \<noteq> -1 then Some (sct t) else None,
      t\<lparr>nLogPort := n, szLogIP := take 49 szIP, strTitle := Title, sct := socket_ret,
        sin_to := (word_of_int n, take 49 szIP)\<rparr>)"

definition TraceLog_titled :: "string \<Rightarrow> string \<Rightarrow> int \<Rightarrow> int \<Rightarrow> tracelog \<Rightarrow> int option \<times> tracelog" where
  "TraceLog_titled szTitle szIP n socket_ret t =
     Init szTitle szIP n socket_ret (t\<lparr>sct := -1, nLevel := 0, bLocal := True, nCounter := 0\<rparr>)"

definition TraceLog_at :: "string \<Rightarrow> int \<Rightarrow> int \<Rightarrow> tracelog \<Rightarrow> int option \<times> tracelog" where
  "TraceLog_at szIP n socket_ret t =
     Init [] szIP n socket_ret (t\<lparr>sct := -1, nLevel := 0, bLocal := True, nCounter := 0\<rparr>)"

definition SetLocalOut :: "bool \<Rightarrow> tracelog \<Rightarrow> tracelog" where
  "SetLocalOut bEnable t = t\<lparr>bLocal := bEnable\<rparr>"

definition SetTraceLevel :: "int \<Rightarrow> tracelog \<Rightarrow> tracelog" where
  "SetTraceLevel n t = t\<lparr>nLevel := n\<rparr>"

section \<open>Formatting\<close>

text \<open>\<open>%d\<close> and \<open>%0wd\<close> of a number that is not negative.\<close>

fun dec :: "nat \<Rightarrow> string" where
  "dec n = (if n < 10 then [char_of (48 + n)] else dec (n div 10) @ [char_of (48 + n mod 10)])"

declare dec.simps [simp del]

definition dec0 :: "nat \<Rightarrow> nat \<Rightarrow> string" where
  "dec0 w n = replicate (w - length (dec n)) (CHR ''0'') @ dec n"

text \<open>Month, day, hour, minute and second of a time in seconds since 1970.\<close>

definition month_day :: "int \<Rightarrow> nat \<times> nat" where
  "month_day days =
     (let z = days + 719468;
          doe = z mod 146097;
          yoe = (doe - doe div 1460 + doe div 36524 - doe div 146096) div 365;
          doy = doe - (365 * yoe + yoe div 4 - yoe div 100);
          mp = (5 * doy + 2) div 153;
          d = doy - (153 * mp + 2) div 5 + 1
      in (nat (if mp < 10 then mp + 3 else mp - 9), nat d))"

definition time_text :: "timeval \<Rightarrow> string" where
  "time_text tv =
     (let s = tv_sec tv; t = nat (s mod 86400); (mon, mday) = month_day (s div 86400)
      in dec0 2 mon @ ''-'' @ dec0 2 mday @ '' '' @ dec0 2 (t div 3600) @ '':'' @ dec0 2 (t div 60 mod 60) @ '':'' @
         dec0 2 (t mod 60) @ ''.'' @ dec0 3 (nat (tv_usec tv div 1000)))"

text \<open>\<open>snprintf(pBuf + used, size - used, ...)\<close> on a buffer that holds \<open>buf\<close>.\<close>

definition put_text :: "nat \<Rightarrow> string \<Rightarrow> string \<Rightarrow> string" where
  "put_text nSize buf txt = buf @ take (nSize - length buf - 1) txt"

definition title_text :: "timeval \<Rightarrow> tracelog \<Rightarrow> string" where
  "title_text tv t =
     [CHR 0x0A] @ time_text tv @ '' '' @ strTitle t @ '' '' @
     (if bLocal t then [] else dec0 4 (nat (nCounter t)) @ '' '')"

definition SetTitle :: "nat \<Rightarrow> timeval \<Rightarrow> tracelog \<Rightarrow> string \<times> tracelog" where
  "SetTitle nSize tv t =
     (put_text nSize [] (title_text tv t), t\<lparr>nCounter := (if nCounter t > 9998 then 0 else nCounter t + 1)\<rparr>)"

text \<open>The name of a level; \<open>None\<close> where the array is read out of its bounds.\<close>

definition priorityName :: "int \<Rightarrow> string option" where
  "priorityName nLev =
     (if 0 \<le> nLev \<and> nLev < int (length priorityNames) then Some (priorityNames ! nat nLev) else None)"

definition place_text :: "string \<Rightarrow> string \<Rightarrow> string \<Rightarrow> nat \<Rightarrow> string" where
  "place_text priority szFile szFunc nLine =
     priority @ '' '' @ szFile @ '':'' @ dec nLine @ ''['' @ szFunc @ '']'' @ [CHR 0x09]"

section \<open>Output\<close>

datatype log_out =
    Puts string
  | Fputs string
  | Sendto string
  | Refused string

text \<open>Where a line goes; \<open>sent_ok\<close> is whether \<open>sendto\<close> succeeds.\<close>

definition SendOut :: "bool \<Rightarrow> string \<Rightarrow> tracelog \<Rightarrow> log_out" where
  "SendOut sent_ok szBuf t =
     (if bLocal t then Puts (tl szBuf)
      else if sct t < 0 then Fputs szBuf
      else if sent_ok then Sendto szBuf
      else Refused (tl szBuf))"

definition MAXBUFSIZE :: nat where
  "MAXBUFSIZE = 1024"

text \<open>The title and the place of the call, in a buffer of \<open>nSize\<close> bytes.\<close>

definition log_head ::
  "nat \<Rightarrow> string \<Rightarrow> string \<Rightarrow> string \<Rightarrow> nat \<Rightarrow> timeval \<Rightarrow> tracelog \<Rightarrow> string \<times> tracelog" where
  "log_head nSize priority szFile szFunc nLine tv t =
     (let (pBuf, t) = SetTitle nSize tv t
      in (if length pBuf < nSize then put_text nSize pBuf (place_text priority szFile szFunc nLine) else pBuf, t))"

text \<open>
  The loop of \<open>Trace\<close>: print, and if the text did not fit, enlarge the buffer and print again.
  \<open>realloc_ok\<close> tells whether a buffer can be enlarged to the given size.
\<close>

function trace_loop :: "(nat \<Rightarrow> bool) \<Rightarrow> nat \<Rightarrow> string \<Rightarrow> string \<Rightarrow> string" where
  "trace_loop realloc_ok nSize pBuf msg =
     (let n = length msg; used = length pBuf; size' = min (used + n + 1) MAXBUFSIZE in
      if nSize = 80 \<or> n < nSize - used \<or> nSize = MAXBUFSIZE then put_text nSize pBuf msg
      else if realloc_ok size' then trace_loop realloc_ok size' pBuf msg
      else put_text nSize pBuf msg)"
  by pat_completeness auto
termination
  by (relation "measure (\<lambda>(_, nSize, _, _). if nSize > MAXBUFSIZE then 1 else MAXBUFSIZE - nSize)")
    (auto simp: min_def)

declare trace_loop.simps [simp del]

definition Trace ::
  "bool \<Rightarrow> (nat \<Rightarrow> bool) \<Rightarrow> bool \<Rightarrow> int \<Rightarrow> string \<Rightarrow> string \<Rightarrow> nat \<Rightarrow> string \<Rightarrow> timeval \<Rightarrow> tracelog \<Rightarrow>
   (log_out option \<times> tracelog) option" where
  "Trace malloc_ok realloc_ok sent_ok nLev szFile szFunc nLine msg tv t =
     (if nLev < nLevel t then Some (None, t)
      else
        case priorityName nLev of
          None \<Rightarrow> None
        | Some priority \<Rightarrow>
            let nSize = (if malloc_ok then 256 else 80);
                (pBuf, t) = log_head nSize priority szFile szFunc nLine tv t
            in Some (Some (SendOut sent_ok (trace_loop realloc_ok nSize pBuf msg) t), t))"

text \<open>
  The hexadecimal digits of \<open>Dump\<close>: each byte as two digits and a space.  \<open>used\<close> counts what would
  have been printed in a buffer that is large enough.
\<close>

fun dump_loop :: "nat \<Rightarrow> nat \<Rightarrow> string \<Rightarrow> byte list \<Rightarrow> string" where
  "dump_loop nSize used pBuf [] = pBuf"
| "dump_loop nSize used pBuf (b # bs) =
     (if used \<ge> nSize then pBuf
      else
        dump_loop nSize (used + 3)
          (put_text nSize pBuf [hexdigit (unat b div 16), hexdigit (unat b mod 16), CHR '' '']) bs)"

definition TraceLog_Dump ::
  "bool \<Rightarrow> bool \<Rightarrow> int \<Rightarrow> string \<Rightarrow> string \<Rightarrow> nat \<Rightarrow> byte list \<Rightarrow> timeval \<Rightarrow> tracelog \<Rightarrow>
   (log_out option \<times> tracelog) option" where
  "TraceLog_Dump malloc_ok sent_ok nLev szFile szFunc nLine buf tv t =
     (if nLev \<le> nLevel t then Some (None, t)
      else
        case priorityName nLev of
          None \<Rightarrow> None
        | Some priority \<Rightarrow>
            let nSize = (if malloc_ok then length buf * 3 + 128 else 80);
                (pBuf, t) = log_head nSize priority szFile szFunc nLine tv t
            in Some (Some (SendOut sent_ok
                 (if length pBuf < nSize then dump_loop nSize (length pBuf) pBuf buf else pBuf) t), t))"

section \<open>Lines\<close>

definition hex_text :: "byte list \<Rightarrow> string" where
  "hex_text bs = concat (map (\<lambda>b. [hexdigit (unat b div 16), hexdigit (unat b mod 16), CHR '' '']) bs)"

definition ticked :: "tracelog \<Rightarrow> tracelog" where
  "ticked t = t\<lparr>nCounter := (if nCounter t > 9998 then 0 else nCounter t + 1)\<rparr>"

lemma put_text_take [simp]: "put_text n (take (n - Suc 0) xs) ys = take (n - Suc 0) (xs @ ys)"
  by (simp add: put_text_def min_def)

lemma put_text_fits: "length xs + length ys < n \<Longrightarrow> put_text n xs ys = xs @ ys"
  by (simp add: put_text_def)

lemma SetTitle_text: "SetTitle n tv t = (take (n - 1) (title_text tv t), ticked t)"
  by (simp add: SetTitle_def ticked_def put_text_def)

lemma log_head_text:
  "0 < n \<Longrightarrow> log_head n p f g l tv t = (take (n - 1) (title_text tv t @ place_text p f g l), ticked t)"
  by (simp add: log_head_def SetTitle_text)

lemma trace_loop_small: "trace_loop ok 80 xs msg = put_text 80 xs msg"
  by (subst trace_loop.simps) simp

lemma trace_loop_stop: "length msg < n - length xs \<or> n = MAXBUFSIZE \<Longrightarrow> trace_loop ok n xs msg = put_text n xs msg"
  by (subst trace_loop.simps) auto

text \<open>A buffer of 256 bytes is enlarged at most once.\<close>

lemma trace_loop_text:
  assumes "length xs < 256"
  shows "trace_loop ok 256 xs msg =
    (if length xs + length msg < 256 then xs @ msg
     else if ok (min (length xs + length msg + 1) 1024) then take 1023 (xs @ msg)
     else take 255 (xs @ msg))"
proof -
  let ?n = "min (length xs + length msg + 1) MAXBUFSIZE"
  have "trace_loop ok ?n xs msg = put_text ?n xs msg"
    by (rule trace_loop_stop) (auto simp: min_def)
  also have "\<dots> = take 1023 (xs @ msg)"
    using assms by (auto simp: put_text_def MAXBUFSIZE_def min_def)
  finally have again: "trace_loop ok ?n xs msg = take 1023 (xs @ msg)" .
  show ?thesis
    using assms again
    by (subst trace_loop.simps) (auto simp: put_text_def MAXBUFSIZE_def Let_def)
qed

lemma dump_loop_text:
  "length xs < n \<Longrightarrow> dump_loop n (length xs) xs bs = take (n - 1) (xs @ hex_text bs)"
proof (induction bs arbitrary: xs)
  case (Cons b bs)
  let ?d = "[hexdigit (unat b div 16), hexdigit (unat b mod 16), CHR '' '']"
  show ?case
  proof (cases "length xs + 3 < n")
    case True
    then have "put_text n xs ?d = xs @ ?d"
      by (simp add: put_text_def)
    moreover have "dump_loop n (length (xs @ ?d)) (xs @ ?d) bs = take (n - 1) ((xs @ ?d) @ hex_text bs)"
      using True by (intro Cons.IH) simp
    ultimately show ?thesis
      using Cons.prems by (simp add: hex_text_def numeral_3_eq_3)
  next
    case False
    then have "dump_loop n (length xs + 3) ys bs = ys" for ys
      by (cases bs) auto
    then show ?thesis
      using Cons.prems False by (auto simp: put_text_def hex_text_def take_Cons' split: if_splits)
  qed
qed (simp add: hex_text_def)

text \<open>A line at the beginning of 1970.\<close>

lemma title_1970:
  "title_text \<lparr>tv_sec = 0, tv_usec = 0\<rparr> TraceLog_static = [CHR 0x0A] @ ''01-01 00:00:00.000  ''"
  by code_simp

lemma place_example:
  "place_text ''ERROR'' ''a.cpp'' ''f'' 7 = ''ERROR a.cpp:7[f]'' @ [CHR 0x09]"
  "place_text ''TRACE'' ''a.cpp'' ''f'' 7 = ''TRACE a.cpp:7[f]'' @ [CHR 0x09]"
  by code_simp+

lemma hex_example: "hex_text [0x10, 0xAB] = ''10 AB ''"
  by code_simp

lemma level_example:
  "priorityName LP_ERROR = Some ''ERROR''" "priorityName LP_TRACE = Some ''TRACE''"
  "nLevel TraceLog_static \<le> LP_ERROR" "nLevel TraceLog_static < LP_TRACE" "bLocal (ticked TraceLog_static)"
  by code_simp+

lemmas examples = title_1970 place_example hex_example level_example



text \<open>
  What \<open>Dump\<close> prints: the title, the place and two digits and a space for each byte, complete
  whenever the head has fewer than 128 characters.
\<close>

theorem Dump_line:
  assumes "priorityName nLev = Some p" "nLevel t < nLev" "length (title_text tv t @ place_text p f g l) < 128"
  shows "TraceLog_Dump True sent_ok nLev f g l bs tv t =
    Some (Some (SendOut sent_ok (title_text tv t @ place_text p f g l @ hex_text bs) (ticked t)), ticked t)"
proof -
  let ?h = "title_text tv t @ place_text p f g l" and ?n = "length bs * 3 + 128"
  have "length (hex_text bs) = 3 * length bs"
    by (induction bs) (simp_all add: hex_text_def)
  then have "dump_loop ?n (length ?h) ?h bs = ?h @ hex_text bs"
    using assms(3) by (subst dump_loop_text) auto
  moreover have "take (?n - 1) ?h = ?h"
    using assms(3) by simp
  ultimately show ?thesis
    using assms by (simp add: TraceLog_Dump_def log_head_text Let_def)
qed

theorem Dump_line_witness:
  "TraceLog_Dump True True LP_TRACE ''a.cpp'' ''f'' 7 [0x10, 0xAB] \<lparr>tv_sec = 0, tv_usec = 0\<rparr> TraceLog_static =
   Some (Some (Puts (''01-01 00:00:00.000  TRACE a.cpp:7[f]'' @ [CHR 0x09] @ ''10 AB '')), ticked TraceLog_static)"
  using Dump_line [where nLev = LP_TRACE and p = "''TRACE''" and t = TraceLog_static and sent_ok = True and
      f = "''a.cpp''" and g = "''f''" and l = 7 and bs = "[0x10, 0xAB]" and tv = "\<lparr>tv_sec = 0, tv_usec = 0\<rparr>"]
  by (simp add: examples SendOut_def)

text \<open>The number of a line has four digits: the counter stays between 0 and 9999.\<close>

lemma counter_ok:
  assumes "0 \<le> nCounter t" "nCounter t \<le> 9999"
  shows "Trace m r s nLev f g l msg tv t = Some (out, t') \<Longrightarrow> 0 \<le> nCounter t' \<and> nCounter t' \<le> 9999"
    and "TraceLog_Dump m s nLev f g l bs tv t = Some (out, t') \<Longrightarrow> 0 \<le> nCounter t' \<and> nCounter t' \<le> 9999"
  using assms
  by (auto simp: Trace_def TraceLog_Dump_def log_head_text ticked_def Let_def split: if_splits option.splits)

end
