(* ===== verification/DataTask.thy ===== *)
theory DataTask
  imports Protocol
begin

text \<open>
  \<open>class DataTask\<close> (DataTask.h, DataTask.cpp): the thread that reads the monitoring post (\<open>doReadData\<close>) and
  the thread that sends the records to the server (\<open>doProcess\<close>).  A thread is its start and the body
  of its endless loop.
\<close>

section \<open>Operations\<close>

definition data_file :: string where
  "data_file = ''./Current.data''"

definition SaveData :: "('z, unit) aprog" where
  "SaveData = bnd (gets dataQueue) (\<lambda>q. if GetSize q \<noteq> 0 then shared (Save data_file q) else ret ())"

definition push_data :: "packet \<Rightarrow> ('z, unit) aprog" where
  "push_data p =
     bnd (gets dataQueue) (\<lambda>q. bnd (of_opt (Push q p)) (\<lambda>q'. modify (dataQueue_update (\<lambda>_. q'))))"

text \<open>A record that was read is queued and the queue is saved.\<close>

definition store_data :: "('z agent_scheme \<times> packet, unit) prog" where
  "store_data =
     bnd (gets snd) (\<lambda>currentData.
       if length currentData \<noteq> 0 then
         thn (outer (push_data currentData))
           (bnd (of_opt (GetDataNo currentData)) (\<lambda>_. thn (outer SaveData) clear_cache))
       else ret ())"

text \<open>One round of \<open>doReadData\<close>; the object is \<open>currentData\<close>.\<close>

definition doReadData :: "('z agent_scheme \<times> packet, unit) prog" where
  "doReadData =
     thn (RequestCurrentData DevMP)
       (thn store_data
         (thn (HealthCheck DevMP) (thn clear_cache (outer PatrolRest))))"

text \<open>\<open>DataTask::run\<close> creates the thread once; \<open>pidTask\<close> is minus one before.\<close>

definition DataTask_run :: "int \<Rightarrow> ('z, int) aprog" where
  "DataTask_run pidTask =
     (if pidTask \<noteq> -1 then ret pidTask
      else bnd (shared (syscall (EvThread ''DataTask::doProcess''))) (\<lambda>r. ret (r_ret r)))"

definition process_start :: "('z, unit) aprog" where
  "process_start =
     thn (on_obj dataQueue (\<lambda>q. dataQueue_update (\<lambda>_. q)) (Load data_file))
       (thn (shared (syscall (EvThread ''DataTask::doReadData''))) (ret ()))"

definition send_session :: "('z, unit) aprog" where
  "send_session =
     bnd (NegoiateDataChannel DataPort) (\<lambda>nAssigned.
       if nAssigned \<noteq> 0 \<and> nAssigned \<noteq> -1 then
         thn (SendCurrentData (Tcp DataPort))
           (thn (HealthCheckReport (Tcp DataPort))
             (bnd (gets (ch_IsOpen (agent_channel (Tcp DataPort)))) (\<lambda>opened.
               if opened then tcp_Close DataPort else ret ())))
       else ret ())"

definition while_on :: "('z, unit) aprog" where
  "while_on =
     loop aleft (\<lambda>u. bnd (gets IsPowerOff) (\<lambda>off.
       if \<not> off then thn (shared (sleep 10)) (ret (Inl ())) else ret (Inr ()))) ()"

definition while_off :: "('z, unit) aprog" where
  "while_off =
     loop aleft (\<lambda>u. bnd (gets IsPowerOff) (\<lambda>off.
       if off then
         bnd (gets nIdleTimeSetting) (\<lambda>n.
         bnd (of_opt (cdiv n 2)) (\<lambda>t. thn (shared (sleep t)) (ret (Inl ()))))
       else ret (Inr ()))) ()"

text \<open>One round of \<open>doProcess\<close>.\<close>

definition doProcess :: "('z, unit) aprog" where
  "doProcess =
     thn (bnd (gets IsPowerOff) (\<lambda>off. if \<not> off then send_session else ret ()))
       (thn while_on while_off)"


section \<open>Saved records\<close>



text \<open>An empty queue is not saved: the file keeps records that were already acknowledged.\<close>

lemma SaveData_empty: "dataQueue s = [] \<Longrightarrow> SaveData s = (Val (), s)"
  by (simp add: SaveData_def bnd_def gets_def GetSize_def ret_def)

end
