(* ===== verification/ControlTask.thy ===== *)
theory ControlTask
  imports Protocol
begin

text \<open>
  \<open>class ControlTask\<close> (ControlTask.h, ControlTask.cpp): the thread that switches the modem and carries out
  the commands of the server.  The thread is the body of its endless loop.
\<close>

section \<open>Operations\<close>

definition ControlTask_run :: "('z, int) aprog" where
  "ControlTask_run = bnd (shared (syscall (EvThread ''ControlTask::doProcess''))) (\<lambda>r. ret (r_ret r))"

text \<open>\<open>if (IsPowerOff()) { PowerOn(); SetExtCommunicationError(IsPowerOff()); }\<close>\<close>

definition switch_on :: "('z, unit) aprog" where
  "switch_on =
     bnd (gets IsPowerOff) (\<lambda>off.
       if off then
         thn (shared PowerOn)
           (bnd (gets IsPowerOff) (\<lambda>off.
             if off then modify (SetExtCommunicationError True) else modify (SetExtCommunicationError False)))
       else ret ())"

text \<open>The \<open>switch\<close> over the command.\<close>

definition dispatch :: "CommunicationCommand \<Rightarrow> packet \<Rightarrow> ('z, unit) aprog" where
  "dispatch eCmd cmd =
     (if eCmd \<in> {GetCondition, SetCondition, GetPreAmp, GetADCSetting, GetSpectrumSetting, SetLowHiDoesRateAlarmReset,
         GetTime, RequestDoseRate, RequestSpectrum, RequestDoseRateAlarm, Request40KAction, RequestGPS, SetTime}
      then TransferCmd DevMP (Tcp ControlPort) cmd
      else if eCmd \<in> {ConfirmDoseRate, ConfirmSpectrum, ConfirmDoseRateAlarm, Confirm40KAction, ConfirmGPS}
      then HistoryDataTransfer DevMP (Tcp ControlPort) (HistoryDataRequestCmd cmd)
      else ret ())"

definition command_failed :: "ChannelException \<Rightarrow> ('z, unit) aprog" where
  "command_failed e =
     thn (bnd (gets (\<lambda>s. IsUnReachable (srvControl s))) (\<lambda>u.
            if u then
              thn (shared PowerOff)
                (thn (shared (sleep 3)) (thn (shared (system ''reboot'')) (ret ())))
            else ret ()))
       (if bUnConnected e then NegoiateControlChannel ControlPort else ret ())"

definition serve_command :: "packet \<Rightarrow> ('z, unit) aprog" where
  "serve_command cmd =
     catch (bnd (GetCommand (Tcp ControlPort) cmd) (\<lambda>(eCmd, cmd). dispatch eCmd cmd)) command_failed"

definition go_to_sleep :: "('z, unit) aprog" where
  "go_to_sleep =
     thn (modify (SetControlDone False))
       (thn (tcp_Close ControlPort)
         (bnd (gets nIdleTimeSetting) (\<lambda>n.
          thn (shared (sleep n))
            (thn (bnd (gets IsPowerOff) (\<lambda>off. if \<not> off then shared PowerOff else ret ()))
              SleepForPowerOn))))"

text \<open>One round of \<open>doProcess\<close>; \<open>cmd\<close> is the command packet of the previous round.\<close>

definition control_round :: "packet \<Rightarrow> ('z, unit) aprog" where
  "control_round cmd =
     thn switch_on
       (thn (bnd (gets IsPowerOff) (\<lambda>off. if \<not> off then serve_command cmd else ret ()))
         (thn (shared (sleep 1))
           (bnd IsTimeForSleep (\<lambda>z. if z then go_to_sleep else ret ()))))"

end
