(* ===== verification/DeviceAgent.thy ===== *)
theory DeviceAgent
  imports DataTask ControlTask
begin

text \<open>
  The main program (device-agent.cpp): the supervising process, which forks a working process and reboots the
  device when that ends, and the working process, which sets up the objects, follows the clock of the
  monitoring post, starts the threads and waits for the power-off key.
\<close>

section \<open>Operations\<close>

definition run_cmd :: "string \<Rightarrow> ('z, int) aprog" where
  "run_cmd c = shared (system c)"

definition InitPort :: "('z, unit) aprog" where
  "InitPort =
     thn (run_cmd
       (''echo 79 > /sys/class/gpio/export;'' @ ''echo 81 > /sys/class/gpio/export;'' @
        ''echo 85 > /sys/class/gpio/export;'' @ ''echo low >/sys/class/gpio/gpio79/direction;'' @
        ''echo low >/sys/class/gpio/gpio81/direction;'' @ ''echo in > /sys/class/gpio/gpio85/direction''))
       (ret ())"

definition power_off_enable :: string where
  "power_off_enable = ''echo high >/sys/class/gpio/gpio81/direction;''"

definition power_off_disable :: string where
  "power_off_disable = ''echo low >/sys/class/gpio/gpio81/direction;''"

definition check_shutdown :: "('z, int) aprog" where
  "check_shutdown =
     bnd (shared (syscall (EvOpen ''/sys/class/gpio/gpio72/value''))) (\<lambda>r.
       let fd = r_ret r in
       if fd < 0 then ret 0
       else
         bnd (shared (syscall (EvRead fd 1))) (\<lambda>r.
           let c = (if r_ret r < 1 then [] else take 1 (r_buf r)) in
           thn (emit (EvClose fd)) (ret (atoi (cstr (map (\<lambda>b. char_of (unat b)) c))))))"

text \<open>A getter of \<open>config\<close>, which reads the file each time.\<close>

definition conf :: "(string option \<Rightarrow> 'a option) \<Rightarrow> ('z, 'a) aprog" where
  "conf getter = bnd (gets (\<lambda>s. getter (conf_text s))) of_opt"

definition create_modem :: "('z, unit) aprog" where
  "create_modem =
     bnd (gets (\<lambda>s. Modem_init (s\<lparr>at_cache := [], UT_ATPort := TCPPort0\<rparr>))) (\<lambda>x.
     bnd (of_opt x) (\<lambda>s. thn (modify (\<lambda>_. s))
       (bnd (conf GetAPN) (\<lambda>a. thn (modify (strAPN_update (\<lambda>_. a)))
       (bnd (conf GetIP) (\<lambda>i. thn (modify (strIP_update (\<lambda>_. i)))
       (bnd (conf GetUserName) (\<lambda>u. thn (modify (strUserName_update (\<lambda>_. u)))
       (bnd (conf GetPassword) (\<lambda>p. modify (strPassword_update (\<lambda>_. p))))))))))))"

definition create_protocol :: "('z, unit) aprog" where
  "create_protocol =
     bnd (conf GetServerName) (\<lambda>n. thn (modify (\<lambda>s. Protocol_init n (gettimeofday s) s))
     (bnd (conf GetMachine) (\<lambda>m. thn (modify (SetMachine (word_of_int m)))
     (bnd (conf GetDataPort) (\<lambda>d. thn (modify (Protocol_SetDataPort d))
     (bnd (conf GetCommandPort) (\<lambda>c. thn (modify (SetCommandPort c))
     (bnd (conf GetIntervalSecond) (\<lambda>i. modify (SetIntervalSecond i))))))))))"

definition set_clock :: "int \<Rightarrow> ('z, unit) aprog" where
  "set_clock Now =
     (if Now \<noteq> 0 then
        thn (shared (settimeofday \<lparr>tv_sec = Now, tv_usec = 0\<rparr>)) (thn (run_cmd ''hwclock -w'') (ret ()))
      else ret ())"

text \<open>The time of the monitoring post, asked for a second time after its self check.\<close>

definition first_time :: "int \<Rightarrow> ('z, int) aprog" where
  "first_time nDelay =
     bnd Protocol_GetMPTime (\<lambda>Now. if Now = 0 then thn (shared (sleep nDelay)) Protocol_GetMPTime else ret Now)"

text \<open>Everything before the threads; the trace level that is read belongs to the log.\<close>

definition set_up :: "('z, unit) aprog" where
  "set_up =
     bnd (conf GetTraceLevel) (\<lambda>_.
     bnd (conf GetPowerOnDelay) (\<lambda>nDelay.
     thn InitPort
       (thn (run_cmd power_off_enable)
         (thn (run_cmd ''ifconfig eth0 up;sleep 1;route add default gw 192.168.1.35 '')
           (thn create_modem
             (thn create_protocol
               (thn LoadStatus
                 (bnd (conf GetMPdev) (\<lambda>dev.
                  thn (on_mp (SerialPort_Open dev))
                    (bnd (first_time nDelay) set_clock))))))))))"

definition start_tasks :: "('z, unit) aprog" where
  "start_tasks =
     thn (modify (dataQueue_update (\<lambda>_. []))) (thn (DataTask_run (-1)) (thn ControlTask_run (ret ())))"

text \<open>\<open>while (1) sleep(60);\<close>\<close>

definition halt :: "('z, 'a) aprog" where
  "halt = loop aleft (\<lambda>u. thn (shared (sleep 60)) (ret (Inl ()))) ()"

definition fail_safe :: "int option \<Rightarrow> ('z, 'a) aprog" where
  "fail_safe fd =
     thn (run_cmd power_off_enable)
       (thn (case fd of None \<Rightarrow> ret () | Some fd \<Rightarrow> emit (EvClose fd)) halt)"

text \<open>The key is pressed: the queue is saved and the device rebooted.\<close>

definition shut_down :: "int \<Rightarrow> ('z, int) aprog" where
  "shut_down fd =
     thn (emit (EvClose fd))
       (thn SaveData (bnd (run_cmd ''reboot'') (\<lambda>n. ret (if n \<noteq> 0 then -1 else 0))))"

definition wait_key :: "('z, int) aprog" where
  "wait_key =
     bnd (shared (syscall (EvOpen ''/dev/event0''))) (\<lambda>r.
       let fd = r_ret r in
       thn (run_cmd power_off_disable)
         (if fd < 0 then fail_safe None
          else
            bnd (shared (syscall (EvInput fd))) (\<lambda>r. if r_ret r < 0 then fail_safe (Some fd) else shut_down fd)))"

definition main_work :: "('z, int) aprog" where
  "main_work = thn set_up (thn start_tasks wait_key)"

definition main_body :: "unit \<Rightarrow> ('z, unit + int) aprog" where
  "main_body u =
     bnd (shared (syscall (EvThread ''fork''))) (\<lambda>r.
       let child = r_ret r in
       if child = 0 then bnd main_work (\<lambda>n. ret (Inr n))
       else if child = -1 then ret (Inl ())
       else
         bnd (shared (syscall (EvThread ''waitpid''))) (\<lambda>_.
         thn (run_cmd ''reboot'') (ret (Inr 0))))"

definition main :: "('z, int) aprog" where
  "main = loop aleft main_body ()"

section \<open>The end of the processes\<close>

definition reboot_ordered :: "'z world_scheme \<Rightarrow> bool" where
  "reboot_ordered w = (\<exists>evs. trace w = evs @ [EvSystem ''reboot''])"

lemma hoare_any: "hoare P m (\<lambda>_ _. True) (\<lambda>_ _. True)"
  by (simp add: hoare_def split: outcome.split)

lemma hoare_reboot: "hoare P (run_cmd ''reboot'') (\<lambda>_. reboot_ordered) (\<lambda>_ _. True)"
  by (rule hoareI)
    (auto simp: run_cmd_def shared_def system_def bnd_eq_Val syscall_eq_Val ret_def reboot_ordered_def split: prod.splits)

lemma hoare_halt: "hoare P halt (\<lambda>_ _. False) (\<lambda>_ _. True)"
proof -
  have body: "hoare (\<lambda>_. True) (thn (shared (sleep 60)) (ret (Inl ())) :: ('a agent_scheme, unit + 'b) prog)
      (\<lambda>r. case r of Inl _ \<Rightarrow> \<lambda>_. True | Inr _ \<Rightarrow> \<lambda>_. False) (\<lambda>_ _. True)"
    by (rule hoare_thn [OF hoare_any], rule hoare_ret) simp
  have "hoare (\<lambda>_. True) (halt :: ('a agent_scheme, 'b) prog) (\<lambda>_ _. False) (\<lambda>_ _. True)"
    unfolding halt_def by (rule hoare_loop [where I = "\<lambda>_ _. True"], rule body)
  then show ?thesis by (rule hoare_weaken) simp_all
qed

lemma hoare_fail_safe: "hoare P (fail_safe fd) (\<lambda>_ _. False) (\<lambda>_ _. True)"
  unfolding fail_safe_def by (intro hoare_thn [OF hoare_any] hoare_halt)

lemma hoare_shut_down: "hoare P (shut_down fd) (\<lambda>_. reboot_ordered) (\<lambda>_ _. True)"
  unfolding shut_down_def by (intro hoare_thn [OF hoare_any] hoare_bnd [OF hoare_reboot] hoare_ret)

lemma hoare_main_work: "hoare P main_work (\<lambda>_. reboot_ordered) (\<lambda>_ _. True)"
  unfolding main_work_def wait_key_def Let_def
  by (intro hoare_thn [OF hoare_any] hoare_bnd [OF hoare_any] hoare_if hoare_shut_down
      hoare_weaken [OF hoare_fail_safe]) simp_all

lemma hoare_main: "hoare (\<lambda>_. True) main (\<lambda>_. reboot_ordered) (\<lambda>_ _. True)"
  unfolding main_def
proof (rule hoare_loop [where I = "\<lambda>_ _. True"])
  show "hoare (\<lambda>_. True) (main_body x) (\<lambda>r. case r of Inl _ \<Rightarrow> \<lambda>_. True | Inr _ \<Rightarrow> reboot_ordered) (\<lambda>_ _. True)" for x
    unfolding main_body_def Let_def
    by (intro hoare_bnd [OF hoare_any] hoare_if hoare_bnd [OF hoare_main_work] hoare_thn [OF hoare_reboot] hoare_ret) simp_all
qed

text \<open>
  C6: no process of the agent ends without ordering a reboot.  Both the supervising process and the working
  process return only after \<open>system("reboot")\<close> as the last thing they did; the working process
  ends only through the power-off key, and when that device fails it stays in its fail safe loop.
\<close>

theorem processes_reboot:
  assumes "main s = (Val n, s') \<or> main_work s = (Val n, s')"
  shows "\<exists>evs. trace s' = evs @ [EvSystem ''reboot'']"
  using assms hoare_ValD [OF hoare_main, of s n s'] hoare_ValD [OF hoare_main_work, of s n s']
  by (auto simp: reboot_ordered_def)

lemma supervisor_run: "fst (main (agent1 [reply0 (-1), reply0 7, reply0 0, reply0 0])) = Val 0"
  by code_simp

theorem processes_reboot_witness:
  "\<exists>evs. trace (snd (main (agent1 [reply0 (-1), reply0 7, reply0 0, reply0 0]))) = evs @ [EvSystem ''reboot'']"
  by (rule processes_reboot [of "agent1 [reply0 (-1), reply0 7, reply0 0, reply0 0]" 0])
    (simp add: supervisor_run prod_eq_iff)

end
