(* ===== verification/Sharing.thy ===== *)
theory Sharing
  imports DataTask ControlTask
begin

text \<open>
  What the threads may do to the state they share.  Most steps are \<open>soft\<close>: they take replies from the
  environment and touch neither queue.  A relation that contains the soft steps and the
  interference of the other threads is kept by every operation of the protocol that does not itself work
  on a queue; this is proved once, in the locale \<open>tolerant\<close>.
\<close>

section \<open>Soft steps\<close>

definition soft :: "'z agent_scheme \<Rightarrow> 'z agent_scheme \<Rightarrow> bool" where
  "soft s s' =
     (dataQueue s' = dataQueue s \<and> statusQueue s' = statusQueue s \<and> consumed s s' \<and> (\<exists>evs. trace s' = trace s @ evs) \<and>
      srvData s' = srvData s \<and> srvControl s' = srvControl s \<and> (tcp_ok (UT_ATPort s) \<longrightarrow> tcp_ok (UT_ATPort s')))"

lemma preorder_soft [simp, intro]: "preorder_rel soft"
  by (auto simp: preorder_rel_def soft_def reflp_def transp_def intro: consumed_trans)

lemma quiet_soft: "quiet s s' \<Longrightarrow> soft s s'"
  using quiet_agent [of s s'] quiet_consumed [of s s'] by (simp add: soft_def)

lemma moves_soft_quiet: "moves quiet m \<Longrightarrow> moves soft m"
  by (simp add: moves_def quiet_soft)

lemma mod_frame_soft:
  fixes s s' :: "'z agent_scheme"
  assumes "mod_frame s s'"
  shows "soft s s'"
  using assms by (cases s; cases s') (auto simp: mod_frame_def soft_def)

lemma moves_soft_frame:
  fixes m :: "('z, 'a) aprog"
  shows "moves mod_frame m \<Longrightarrow> moves soft m"
  by (simp add: moves_def mod_frame_soft)

lemma moves_soft_mp:
  assumes "moves obj_le m"
  shows "moves soft (on_obj devMP (\<lambda>p. devMP_update (\<lambda>_. p)) m)"
proof (rule movesI)
  fix s :: "'a agent_scheme"
  obtain v s1 p where run: "m (s, devMP s) = (v, (s1, p))" by (metis prod.collapse)
  have q: "quiet s s1" using movesD [OF assms run] by (simp add: obj_le_def)
  with quiet_soft [OF q] run show "soft s (snd (on_obj devMP (\<lambda>p. devMP_update (\<lambda>_. p)) m s))"
    by (auto simp: on_obj_def soft_def consumed_def)
qed

lemma moves_soft_files:
  fixes f :: "'z agent_scheme \<Rightarrow> string \<Rightarrow> byte list option"
  shows "moves soft (modify (\<lambda>s. s\<lparr>files := f s\<rparr>))"
  by (rule moves_modify) (simp add: soft_def consumed_def)

lemma moves_soft_posix [hoare_rules]:
  "moves soft (syscall ev :: ('z, reply) aprog)" "moves soft (emit ev :: ('z, unit) aprog)"
  "moves soft (sleep n :: ('z, unit) aprog)" "moves soft (usleep n :: ('z, unit) aprog)"
  "moves soft (settimeofday tv :: ('z, int) aprog)" "moves soft (system c :: ('z, int) aprog)"
  "moves soft (PowerOn :: ('z, unit) aprog)" "moves soft (PowerOff :: ('z, unit) aprog)"
  by (intro moves_soft_quiet moves_soft_frame hoare_rules)+

lemma moves_soft_Save [hoare_rules]: "moves soft (Save f q :: ('z, unit) aprog)"
proof -
  have "moves soft (Save_loop fd f q :: ('z, unit) aprog)" for fd
    by (induction q)
      (auto simp: write_file_def Let_def intro!: preorder_soft hoare_rules moves_soft_files)
  then show ?thesis
    unfolding Save_def Let_def by (intro preorder_soft hoare_rules moves_soft_files)
qed

section \<open>Steps of the threads\<close>

text \<open>
  A relation with these laws holds for every call on a port and for every dialogue that negotiates no
  channel.
\<close>

locale soft_steps =
  fixes R :: "'z agent_scheme \<Rightarrow> 'z agent_scheme \<Rightarrow> bool"
  assumes pre: "preorder_rel R"
    and soft_R: "soft s s' \<Longrightarrow> R s s'"
    and absorb_R: "R s (absorb s)"
    and put_R: "(tcp_ok (tcp_get r s) \<longrightarrow> tcp_ok p) \<Longrightarrow> R s (tcp_put r p s)"
begin

lemma R_trans: "R s s' \<Longrightarrow> R s' s'' \<Longrightarrow> R s s''"
  by (rule preorder_relD [OF pre])

lemma moves_R_soft: "moves soft m \<Longrightarrow> moves R m"
  by (simp add: moves_def soft_R)

lemma moves_R_shared: "moves R m \<Longrightarrow> moves R (shared m)"
  using R_trans [OF _ absorb_R] by (simp add: moves_def shared_def case_prod_beta)

lemma moves_R_modify: "(\<And>s. soft s (f s)) \<Longrightarrow> moves R (modify f)"
  by (rule moves_modify) (rule soft_R)

lemma moves_R_tcp:
  assumes "moves obj_le m" "moves (preserves tcp_inv) m"
  shows "moves R (on_tcp r m)"
  unfolding on_tcp_def
proof (rule moves_R_shared, rule movesI)
  fix s
  obtain v s1 p where run: "m (s, tcp_get r s) = (v, (s1, p))" by (metis prod.collapse)
  have q: "quiet s s1" using movesD [OF assms(1) run] by (simp add: obj_le_def)
  have "tcp_ok (tcp_get r s1) \<longrightarrow> tcp_ok p"
    using movesD [OF assms(2) run] ports_quiet [OF q] by (simp add: preserves_def tcp_inv_def)
  with run show "R s (snd (on_obj (tcp_get r) (tcp_put r) m s))"
    by (simp add: on_obj_def) (rule R_trans [OF soft_R [OF quiet_soft [OF q]] put_R])
qed

lemma moves_R_mp: "moves obj_le m \<Longrightarrow> moves R (on_mp m)"
  unfolding on_mp_def by (intro moves_R_shared moves_R_soft moves_soft_mp)

lemma pre_fst: "preorder_rel (\<lambda>s s'. R (fst s) (fst s'))"
  by (rule preorder_fst) (rule pre)

lemma moves_R_channel:
  "moves R (ch_Read (agent_channel c) n)" "moves R (ch_Write (agent_channel c) bs)"
  "moves R (ch_SetTimeOut (agent_channel c) t)" "moves R (ch_Open (agent_channel c))"
  "moves R (ch_Lock (agent_channel c))" "moves R (ch_Unlock (agent_channel c))"
  by (cases c; simp add: tcp_channel_def serial_channel_def SerialPort_Lock_def SerialPort_Unlock_def SerialPort_SetTimeOut_def;
      intro moves_R_tcp moves_R_mp preorder_obj_le preorder_preserves hoare_rules)+

lemma moves_R_recv:
  "moves (\<lambda>s s'. R (fst s) (fst s')) (ReceiveFrameFrom (agent_channel c))"
  "moves (\<lambda>s s'. R (fst s) (fst s')) (ReceiveAckFrom (agent_channel c))"
  by (intro moves_ReceiveFrameFrom moves_ReceiveAckFrom pre moves_R_channel)+

lemma moves_R_call:
  "moves (\<lambda>s s'. R (fst s) (fst s')) m \<Longrightarrow> moves R (call_try m x)"
  "moves (\<lambda>s s'. R (fst s) (fst s')) m \<Longrightarrow> moves R (call m x)"
  by (auto intro: moves_call_try moves_call pre)

lemma moves_R_calls:
  "moves R (shared (syscall ev))" "moves R (shared (sleep n))" "moves R (shared (usleep n))"
  "moves R (shared (settimeofday tv))" "moves R (shared (system c))" "moves R (shared PowerOn)"
  "moves R (shared PowerOff)" "moves R (shared (Save f q))" "moves R (emit ev)"
  by (intro moves_R_shared moves_R_soft hoare_rules)+

lemma moves_R_ports:
  "moves R (tcp_Close r)" "moves R (on_tcp r (TCPPort_Open h k))" "moves R (on_tcp r (TCPPort_SetTimeOut t))"
  "moves R (on_mp (SerialPort_SetTimeOut t))" "moves R (on_mp (SerialPort_Open d))"
  unfolding tcp_Close_def SerialPort_SetTimeOut_def
  by (intro moves_R_tcp moves_R_mp preorder_obj_le preorder_preserves hoare_rules)+

lemma moves_R_fields:
  "moves R (modify (bExtCommunicationError_update f))" "moves R (modify (bInCommunicationError_update f))"
  "moves R (modify (nLastStatus_update g))" "moves R (modify (tmCurrentDataActive_update h))"
  "moves R (modify (tmHealthCheckActive_update h))" "moves R (modify (tmSendDataActive_update h))"
  "moves R (modify (\<lambda>s. s\<lparr>bExtCommunicationError := b, bControlDone := d\<rparr>))"
  "moves R (modify (\<lambda>s. s\<lparr>bExtCommunicationError := b, bInCommunicationError := d\<rparr>))"
  "moves R (modify (SetExtCommunicationError b))" "moves R (modify (SetControlDone b))"
  "moves R (modify (\<lambda>s. setLastActionTime (tm s) s))"
  by (intro moves_R_modify;
      simp add: soft_def consumed_def SetExtCommunicationError_def SetControlDone_def setLastActionTime_def)+

lemmas R_basic = pre pre_fst moves_R_channel moves_R_recv moves_R_call moves_R_calls moves_R_ports moves_R_fields
  moves_fst_outer moves_fst_cache

lemma moves_R_dialogue: "moves R (recv c p)" "moves R (SendTo (agent_channel c) q)"
  unfolding recv_def SendTo_def case_prod_beta by (intro R_basic hoare_rules)+

lemma moves_R_record: "moves R (send_record c p)" "moves R (report_exchange c p)"
  unfolding send_record_def report_exchange_def case_prod_beta by (intro R_basic moves_R_dialogue hoare_rules)+

lemma moves_R_clock:
  "moves R Protocol_GetMPTime" "moves R GetMPIntervalSecond" "moves R (adjust_clock n)" "moves R (wait_sample n)"
  "moves R PatrolRest" "moves R SleepForPowerOn" "moves R IsTimeForSleep" "moves R SaveData"
  unfolding Protocol_GetMPTime_def GetMPIntervalSecond_def adjust_clock_def wait_sample_def PatrolRest_def
    SleepForPowerOn_def IsTimeForSleep_def SaveData_def Let_def
  by (intro R_basic moves_R_dialogue hoare_rules)+

lemma moves_R_transfer: "moves R (TransferCmd dev port cmd)"
  unfolding TransferCmd_def transfer_try_def case_prod_beta by (intro R_basic moves_R_dialogue hoare_rules)

lemma moves_R_history: "moves R (HistoryDataTransfer dev port cmd)"
proof -
  have all: "moves R (send_all port q)" for q
    by (induction q) (auto intro!: R_basic moves_R_dialogue hoare_rules)
  have queue: "moves R (SendQueueData port q)" for q
    unfolding SendQueueData_def queue_body_def case_prod_beta by (intro R_basic moves_R_dialogue all hoare_rules)
  have "moves R (history_rounds dev port n k count q answer cmd)" for n k count q answer cmd
    by (induction n arbitrary: k count q answer cmd) (auto intro!: R_basic moves_R_dialogue queue hoare_rules)
  then show ?thesis unfolding HistoryDataTransfer_def by (intro R_basic moves_R_dialogue hoare_rules)
qed

end

text \<open>With a port that may be left in any state, the negotiation of a channel is covered too.\<close>

locale tolerant = soft_steps R for R :: "'z agent_scheme \<Rightarrow> 'z agent_scheme \<Rightarrow> bool" +
  assumes any_put_R: "R s (tcp_put r p s)"
begin

lemma moves_R_Connect: "moves R (on_tcp r TCPPort_Connect)" "moves R (set_remote r n)"
proof -
  have "moves R (on_tcp r m)" if m: "moves obj_le m" for m :: "('z agent_scheme \<times> tcpport, int) prog"
    unfolding on_tcp_def
  proof (rule moves_R_shared, rule movesI)
    fix s
    obtain v s1 p where run: "m (s, tcp_get r s) = (v, (s1, p))" by (metis prod.collapse)
    have "quiet s s1" using movesD [OF m run] by (simp add: obj_le_def)
    with run show "R s (snd (on_obj (tcp_get r) (tcp_put r) m s))"
      by (simp add: on_obj_def) (rule R_trans [OF soft_R [OF quiet_soft] any_put_R])
  qed
  then show "moves R (on_tcp r TCPPort_Connect)" by (simp add: hoare_rules)
  show "moves R (set_remote r n)" unfolding set_remote_def by (rule moves_modify) (rule any_put_R)
qed

lemma moves_R_negotiate: "moves R (negoiateChannel r n)"
  unfolding negoiateChannel_def negotiate_body_def open_failed_def accept_port_def case_prod_beta Let_def
  by (intro R_basic moves_R_dialogue hoare_rules)

lemma moves_R_try: "moves R (data_try r n)" "moves R (control_try r n)"
  unfolding data_try_def control_try_def connect_assigned_def pause_def case_prod_beta
  by (intro R_basic moves_R_Connect hoare_rules)+

lemma moves_R_rounds: "moves R (data_rounds r k n)" "moves R (control_rounds r k n)"
  by (induction k arbitrary: n)
    (auto simp del: attempts.simps intro!: R_basic moves_R_try moves_R_negotiate hoare_rules)

lemma moves_R_channels: "moves R (NegoiateDataChannel r)" "moves R (NegoiateControlChannel r)"
  unfolding NegoiateDataChannel_def NegoiateControlChannel_def wait_control_def wait_body_def
  by (intro R_basic moves_R_negotiate moves_R_rounds hoare_rules)+

end

text \<open>With laws for the queues, every round of every thread is covered.\<close>

locale thread_steps = soft_steps R for R :: "'z agent_scheme \<Rightarrow> 'z agent_scheme \<Rightarrow> bool" +
  assumes data_R: "moves R (NegoiateDataChannel r)"
    and control_R: "moves R (NegoiateControlChannel r)"
    and pop_R: "Pop (dataQueue s) = Some q \<Longrightarrow> R s (s\<lparr>dataQueue := q\<rparr>)"
    and push_R: "Push (dataQueue s) p = Some q \<Longrightarrow> R s (s\<lparr>dataQueue := q\<rparr>)"
    and pop_status_R: "Pop (statusQueue s) = Some q \<Longrightarrow> R s (s\<lparr>statusQueue := q\<rparr>)"
    and push_status_R: "Push (statusQueue s) p = Some q \<Longrightarrow> R s (s\<lparr>statusQueue := q\<rparr>)"
begin

lemma R_refl: "R s s"
  using pre by (simp add: preorder_rel_def reflp_def)

lemma moves_R_pop: "moves R pop_data" "moves R pop_status"
  unfolding pop_data_def pop_status_def
  by (rule movesI, simp add: bnd_def gets_def of_opt_def modify_def R_refl pop_R pop_status_R split: option.split)+

lemma moves_R_push: "moves R (push_data p)"
  unfolding push_data_def
  by (rule movesI, simp add: bnd_def gets_def of_opt_def modify_def R_refl push_R split: option.split)

lemma moves_R_push_status:
  "moves R (bnd (gets statusQueue) (\<lambda>q. bnd (of_opt (Push q p)) (\<lambda>q'. modify (statusQueue_update (\<lambda>_. q')))))"
  by (rule movesI, simp add: bnd_def gets_def of_opt_def modify_def R_refl push_status_R split: option.split)

lemma moves_R_reconnect: "moves R (reconnect c)"
  unfolding reconnect_def
  by (cases c; simp only: chan_ref.case; intro R_basic data_R hoare_rules)

lemmas R_steps = R_basic moves_R_dialogue moves_R_record data_R control_R moves_R_pop moves_R_push moves_R_push_status
  moves_R_reconnect

lemma moves_R_send: "moves R (SendCurrentData c)" "moves R (HealthCheckReport c)"
  unfolding SendCurrentData_def HealthCheckReport_def send_body_def report_body_def judge_ack_def judge_report_def
    case_prod_beta
  by (intro R_steps hoare_rules)+

lemma moves_R_note: "moves R (note_status p)"
  unfolding note_status_def by (intro R_steps hoare_rules)

lemma moves_R_request:
  "moves (\<lambda>s s'. R (fst s) (fst s')) (RequestCurrentData c)" "moves (\<lambda>s s'. R (fst s) (fst s')) (HealthCheck c)"
  unfolding RequestCurrentData_def request_data_def request_try_def HealthCheck_def
  by (intro R_steps moves_R_clock moves_R_note hoare_rules)+

text \<open>The reading thread.\<close>

lemma moves_R_doReadData: "moves (\<lambda>s s'. R (fst s) (fst s')) doReadData"
  unfolding doReadData_def store_data_def clear_cache_def
  by (intro R_steps moves_R_request moves_R_clock hoare_rules) auto

text \<open>The sending thread.\<close>

lemma moves_R_doProcess: "moves R doProcess"
  unfolding doProcess_def send_session_def while_on_def while_off_def
  by (intro R_steps moves_R_send hoare_rules)

text \<open>The control thread.\<close>

lemma moves_R_control: "moves R (control_round cmd)"
  unfolding control_round_def switch_on_def serve_command_def GetCommand_def dispatch_def command_failed_def
    go_to_sleep_def case_prod_beta
  by (intro R_steps moves_R_transfer moves_R_history moves_R_clock hoare_rules)

end

end
