(* ===== verification/Delivery.thy ===== *)
theory Delivery
  imports Sharing "HOL-Library.Sublist"
begin

text \<open>
  What \<open>SendCurrentData\<close> promises about the records in the queue: a record is removed only when the server has
  acknowledged it, and a server that acknowledges every record gets all of them, in order.
\<close>

section \<open>Where bytes come from\<close>

text \<open>The bytes that the replies to come can deliver.\<close>

definition heard :: "'z world_scheme \<Rightarrow> byte set" where
  "heard w = (\<Union>r \<in> set (script w). set (r_buf r))"

lemma heard_consumed: "consumed w w' \<Longrightarrow> heard w' \<subseteq> heard w"
  by (auto simp: heard_def consumed_def)

lemma tcp_heard: "TCPPort_Read n s = (Val bs, s') \<Longrightarrow> set bs \<subseteq> heard (fst s)"
  by (auto simp: TCPPort_Read_def bnd_eq_Val thn_def getp_def gets_def outer_def ret_def throw_def heard_def Let_def
      syscall_eq_Val split: prod.splits if_splits dest!: in_set_takeD)

lemma sys_read_heard: "sys_read n s = (Val (Some bs), s') \<Longrightarrow> set bs \<subseteq> heard (fst s)"
  by (auto simp: sys_read_def bnd_eq_Val gets_port_def gets_def outer_def ret_def heard_def syscall_eq_Val
      split: prod.splits if_splits dest!: in_set_takeD)

lemma obj_heard: "moves obj_le m \<Longrightarrow> m s = (v, s') \<Longrightarrow> heard (fst s') \<subseteq> heard (fst s)"
  by (auto dest!: movesD quiet_consumed heard_consumed simp: obj_le_def)

lemma read_try_heard: "read_try n k s = (Val bs, s') \<Longrightarrow> set bs \<subseteq> heard (fst s)"
proof (induction k arbitrary: s rule: less_induct)
  case (less k)
  from less.prems obtain x s1 where x: "sys_read n s = (Val x, s1)" and rest:
    "(case x of None \<Rightarrow> thn SerialPort_Close (ret [])
       | Some bs \<Rightarrow> if bs \<noteq> [] then ret bs
           else if k \<noteq> 0 then bnd (gets_port sp_timeout) (\<lambda>t. thn (outer (usleep t))
               (if k - 1 \<noteq> 0 then read_try n (k - 1) else ret []))
           else ret []) s1 = (Val bs, s')"
    by (subst (asm) read_try.simps) (auto simp: bnd_eq_Val)
  have s1: "heard (fst s1) \<subseteq> heard (fst s)" by (rule obj_heard [OF moves_ser_sys_read x])
  have s2: "heard (fst s2) \<subseteq> heard (fst s1)" if "outer (usleep t) s1 = (v, s2)" for t v s2
    by (rule obj_heard [OF moves_obj_outer [OF moves_quiet_usleep] that])
  consider "bs = []" | "x = Some bs"
    | t s2 where "k \<noteq> 0" "outer (usleep t) s1 = (Val (), s2)" "read_try n (k - 1) s2 = (Val bs, s')"
    using rest by (auto simp: bnd_eq_Val thn_def gets_port_def gets_def ret_def split: option.splits if_splits)
  then show ?case
  proof cases
    case 2
    then show ?thesis using sys_read_heard x by simp
  next
    case 3
    with less.IH [of "k - 1" s2] s1 s2 show ?thesis by fastforce
  qed simp
qed

lemma ser_heard: "SerialPort_Read n s = (Val bs, s') \<Longrightarrow> set bs \<subseteq> heard (fst s)"
proof (cases "n = 0")
  case False
  assume "SerialPort_Read n s = (Val bs, s')"
  with False obtain s1 where "reopen s = (Val (), s1)" "read_try n 2 s1 = (Val bs, s')"
    by (auto simp: SerialPort_Read_def thn_def bnd_eq_Val)
  then show ?thesis using obj_heard [OF moves_ser_reopen] read_try_heard by blast
qed (simp add: SerialPort_Read_def ret_def)

lemma agent_heard: "ch_Read (agent_channel c) n s = (Val bs, s') \<Longrightarrow> set bs \<subseteq> heard s"
  by (cases c) (auto simp: tcp_channel_def serial_channel_def dest!: on_Val tcp_heard ser_heard)

section \<open>The bytes of an acknowledgement\<close>

text \<open>If a channel delivers only bytes with \<open>B\<close> while \<open>I\<close> holds, then so does what \<open>ReceiveAckFrom\<close> collects.\<close>

definition cached :: "('s \<Rightarrow> bool) \<Rightarrow> (byte \<Rightarrow> bool) \<Rightarrow> 's \<times> packet \<Rightarrow> bool" where
  "cached I B t = (I (fst t) \<and> list_all B (snd t))"

locale filtered_channel =
  fixes port :: "'s channel" and I :: "'s \<Rightarrow> bool" and B :: "byte \<Rightarrow> bool"
  assumes read_I: "moves (preserves I) (ch_Read port 1)"
    and timeout_I: "moves (preserves I) (ch_SetTimeOut port t)"
    and read_B: "I s \<Longrightarrow> ch_Read port 1 s = (Val bs, s') \<Longrightarrow> list_all B bs"
begin

lemma track_outer_cached: "moves (preserves I) m \<Longrightarrow> track (cached I B) P (outer m) (\<lambda>_ _. True)"
  by (auto simp: track_def moves_def preserves_def cached_def outer_def split: prod.splits)

lemma track_read1: "track (cached I B) P (read1 port) (\<lambda>r _. \<forall>b. r = Some b \<longrightarrow> B b)"
proof (rule trackI)
  show "cached I B s'" if "cached I B s" "read1 port s = (r, s')" for s r s'
    using that read_I
    by (auto simp: read1_def bnd_def outer_def ret_def cached_def moves_def preserves_def split: prod.splits outcome.splits list.splits)
  show "\<forall>b. r = Some b \<longrightarrow> B b" if "cached I B s" "read1 port s = (Val r, s')" for s r s'
  proof (intro allI impI)
    fix b
    assume "r = Some b"
    with that(2) read1_eq_Some [of port "fst s" "snd s" b "fst s'" "snd s'"]
    obtain bs t where "ch_Read port 1 (fst s) = (Val (b # bs), t)" by auto
    with read_B [of "fst s"] that(1) show "B b" by (auto simp: cached_def)
  qed
qed

lemma track_scan: "track (cached I B) (\<lambda>_. B b) (scan_start port start b) (\<lambda>r _. \<forall>x. r = Some x \<longrightarrow> B x)"
  unfolding scan_start_def
proof (rule track_loop [where P = "\<lambda>b _. B b"])
  show "track (cached I B) (\<lambda>_. B x) (scan_start_body port start x)
     (\<lambda>r. case r of Inl x' \<Rightarrow> \<lambda>_. B x' | Inr v \<Rightarrow> \<lambda>_. \<forall>x. v = Some x \<longrightarrow> B x)" for x
    unfolding scan_start_body_def
    by (intro track_if track_ret track_bnd [OF track_read1]) (auto intro!: track_ret split: option.split)
qed

lemma track_collect: "track (cached I B) (\<lambda>_. B b) (loop (pleft port) (collect_ack_body port) b) (\<lambda>_ _. True)"
proof (rule track_loop [where P = "\<lambda>b _. B b"])
  have app: "track (cached I B) (\<lambda>_. B x) (append_cache x) (\<lambda>_ _. True)" for x
    unfolding append_cache_def by (rule track_modify) (auto simp: cached_def)
  show "track (cached I B) (\<lambda>_. B x) (collect_ack_body port x) (\<lambda>r. case r of Inl x' \<Rightarrow> \<lambda>_. B x' | Inr v \<Rightarrow> \<lambda>_. True)" for x
    unfolding collect_ack_body_def
    by (rule track_thn [OF app], rule track_bnd [OF track_read1]) (auto intro!: track_ret split: option.split)
qed

lemma track_ReceiveAckFrom: "track (cached I B) (\<lambda>_. True) (ReceiveAckFrom port) (\<lambda>_ _. True)"
proof -
  have clear: "track (cached I B) (\<lambda>_. True) clear_cache (\<lambda>_ _. True)"
    unfolding clear_cache_def by (rule track_modify) (auto simp: cached_def)
  have scan: "track (cached I B) (\<lambda>_. B b) (bnd (scan_start port start b)
      (\<lambda>r. case r of None \<Rightarrow> ret () | Some b \<Rightarrow> loop (pleft port) (collect_ack_body port) b)) (\<lambda>_ _. True)" for b start
    by (rule track_bnd [OF track_scan])
      (auto split: option.split intro!: track_ret intro: track_weaken [OF track_collect])
  have "track (cached I B) (\<lambda>_. B b) (outer (ch_SetTimeOut port t)) (\<lambda>_ _. B b)" for b t
    using track_outer_cached [OF timeout_I, of "\<lambda>_. B b"] by (simp add: track_def)
  note rest = track_thn [OF this scan]
  show ?thesis
    unfolding ReceiveAckFrom_def
    by (rule track_thn [OF clear], rule track_bnd [OF track_read1])
      (auto split: option.split intro!: track_ret intro: track_weaken [OF rest])
qed

end

section \<open>Records that are not acknowledged\<close>

text \<open>No reply to come brings an \<open>ACK\<close> byte, and no other thread removes a record.\<close>

definition deaf :: "'z agent_scheme \<Rightarrow> bool" where
  "deaf s = (ACK \<notin> heard s \<and> IPop \<notin> set (pending s) \<and> (\<forall>r \<in> set (script s). IPop \<notin> set (r_inf r)))"

definition is_record :: "packet \<Rightarrow> bool" where
  "is_record p = (FrameCommandType p = Some DataRequest)"

definition keeps :: "'z agent_scheme \<Rightarrow> 'z agent_scheme \<Rightarrow> bool" where
  "keeps s s' =
     (deaf s \<longrightarrow> deaf s' \<and> prefix (filter is_record (dataQueue s)) (filter is_record (dataQueue s')))"

lemma deaf_consumed: "consumed s s' \<Longrightarrow> deaf s \<Longrightarrow> deaf s'"
  by (auto simp: deaf_def heard_def consumed_def)

lemma interfere_grows:
  "i \<noteq> IPop \<Longrightarrow> prefix (filter is_record (dataQueue s)) (filter is_record (dataQueue (interfere i s)))"
  by (cases i) (auto simp: try_upd_def Push_def split: option.split)

lemma fold_interfere_grows:
  "IPop \<notin> set is \<Longrightarrow> prefix (filter is_record (dataQueue s)) (filter is_record (dataQueue (fold interfere is s)))"
proof (induction "is" arbitrary: s)
  case (Cons i "is")
  then show ?case using interfere_grows [of i s] prefix_order.trans by fastforce
qed simp

lemma preorder_keeps: "preorder_rel keeps"
  by (auto simp: preorder_rel_def keeps_def reflp_def transp_def)

interpretation keep: tolerant keeps
proof
  show "keeps s s'" if "soft s s'" for s s' :: "'a agent_scheme"
    using that deaf_consumed by (auto simp: soft_def keeps_def)
  show "keeps s (absorb s)" for s :: "'a agent_scheme"
    using fold_interfere_grows [of "pending s" "s\<lparr>pending := []\<rparr>"]
    by (simp add: keeps_def deaf_def heard_def) (simp add: absorb_def)
  show "keeps s (tcp_put r p s)" for r p and s :: "'a agent_scheme"
    by (cases r) (simp_all add: keeps_def deaf_def heard_def)
  then show "keeps s (tcp_put r p s)" for r p and s :: "'a agent_scheme" .
qed (rule preorder_keeps)

lemma keeps_deaf: "moves keeps m \<Longrightarrow> moves (preserves deaf) m"
  by (simp add: moves_def preserves_def keeps_def)

interpretation deafened: filtered_channel "agent_channel c" deaf "\<lambda>b. b \<noteq> ACK" for c
proof
  show "list_all (\<lambda>b. b \<noteq> ACK) bs" if "deaf s" "ch_Read (agent_channel c) 1 s = (Val bs, s')" for s s' bs
    using agent_heard [OF that(2)] that(1) by (auto simp: deaf_def list_all_iff)
qed (intro keeps_deaf keep.moves_R_channel)+

definition exchange :: "chan_ref \<Rightarrow> byte list \<Rightarrow> ('z agent_scheme \<times> packet, unit) prog" where
  "exchange c bs = thn (outer (ch_Write (agent_channel c) bs)) (ReceiveAckFrom (agent_channel c))"

lemma send_record_run:
  "send_record c p s = (Val (x, ack), s') \<Longrightarrow> \<exists>bs v. exchange c bs (s, []) = (v, (s', ack))"
  by (cases "frame_bytes p"; cases "exchange c (the (frame_bytes p)) (s, [])"; cases "fst (exchange c (the (frame_bytes p)) (s, []))")
    (auto simp: send_record_def exchange_def [symmetric] call_try_def bnd_def of_opt_def ret_def)

lemma deaf_exchange:
  fixes s :: "'z agent_scheme"
  assumes "deaf s" "exchange c bs (s, []) = (v, t)"
  shows "list_all (\<lambda>b. b \<noteq> ACK) (snd t)"
proof -
  have "track (cached (deaf :: 'z agent_scheme \<Rightarrow> bool) (\<lambda>b. b \<noteq> ACK)) (\<lambda>_. True) (exchange c bs) (\<lambda>_ _. True)"
    unfolding exchange_def
    by (rule track_thn [OF deafened.track_outer_cached deafened.track_ReceiveAckFrom])
      (intro keeps_deaf keep.moves_R_channel)
  from trackD(1) [OF this assms(2)] assms(1) show ?thesis by (simp add: cached_def)
qed

lemma deaf_record:
  assumes "deaf s" "send_record c p s = (Val (x, ack), s')"
  shows "\<not> IsAck ack"
proof -
  from send_record_run [OF assms(2)] deaf_exchange [OF assms(1)] have "list_all (\<lambda>b. b \<noteq> ACK) ack" by fastforce
  then show ?thesis by (cases ack) (auto simp: IsAck_def peek_def ACK_def)
qed

lemma moves_run: "moves R m \<Longrightarrow> R s (snd (m s))"
  by (simp add: moves_def)

lemma keeps_refl: "keeps s s"
  by (simp add: keeps_def)

lemma keeps_flag: "keeps s (s\<lparr>bExtCommunicationError := b\<rparr>)"
  by (simp add: keeps_def deaf_def heard_def)

lemma judge_keeps: "\<not> IsAck ack \<Longrightarrow> keeps s (snd (judge_ack p ack k s))"
  by (auto simp: judge_ack_def acks_def bnd_def thn_def gets_def of_opt_def ret_def modify_def keeps_refl
      split: if_splits intro: keeps_flag)

lemma pop_keeps: "dataQueue s = p # q \<Longrightarrow> \<not> is_record p \<Longrightarrow> keeps s (s\<lparr>dataQueue := q\<rparr>)"
  by (simp add: keeps_def deaf_def heard_def)

lemma moves_keeps_rest:
  "moves keeps (reconnect c)" "moves keeps (HealthCheckReport c)"
proof -
  have pop: "moves keeps pop_status"
    by (rule movesI) (auto simp: pop_status_def bnd_def gets_def of_opt_def modify_def keeps_def deaf_def heard_def
        split: option.split)
  show "moves keeps (HealthCheckReport c)"
    unfolding HealthCheckReport_def report_body_def judge_report_def case_prod_beta
    by (intro keep.R_basic keep.moves_R_record pop hoare_rules)
  show "moves keeps (reconnect c)"
    unfolding reconnect_def
    by (cases c; simp only: chan_ref.case; intro keep.R_basic keep.moves_R_channels hoare_rules)
qed

lemma again_keeps: "moves keeps (bnd (reconnect c) (\<lambda>again. if again then ret (Inl k) else ret (Inr ())))"
  by (intro keep.R_basic moves_keeps_rest hoare_rules)

lemma exchange_keeps:
  "moves keeps (bnd (send_record c p) (\<lambda>(x, ack).
     if lost x then bnd (reconnect c) (\<lambda>again. if again then ret (Inl k) else ret (Inr ())) else judge_ack p ack k))"
  (is "moves keeps (bnd _ ?f)")
proof (rule movesI)
  fix s :: "'a agent_scheme"
  obtain v s1 where run: "send_record c p s = (v, s1)" by fastforce
  have s1: "keeps s s1" by (rule movesD [OF keep.moves_R_record(1) run])
  show "keeps s (snd (bnd (send_record c p) ?f s))"
  proof (cases "\<exists>x ack. v = Val (x, ack) \<and> deaf s")
    case True
    then obtain x ack where v: "v = Val (x, ack)" "deaf s" by blast
    have "keeps s1 (snd (?f (x, ack) s1))"
      using judge_keeps [OF deaf_record [OF v(2) run [unfolded v(1)]], of s1] moves_run [OF again_keeps, of s1 c k] by simp
    with keep.R_trans [OF s1] run v(1) show ?thesis by (simp add: bnd_def)
  next
    case False
    then show ?thesis using run s1 by (cases v) (auto simp: bnd_def keeps_def)
  qed
qed

lemma moves_keeps_send_body: "moves keeps (send_body c k)"
proof (rule movesI)
  fix s :: "'a agent_scheme"
  consider (empty) "dataQueue s = []" | (other) p q where "dataQueue s = p # q" "\<not> is_record p"
    | (data) p q where "dataQueue s = p # q" "is_record p"
    by (cases "dataQueue s") auto
  then show "keeps s (snd (send_body c k s))"
  proof cases
    case empty
    then show ?thesis by (simp add: send_body_def bnd_def gets_def ret_def GetSize_def keeps_refl)
  next
    case other
    then show ?thesis
      using pop_keeps [OF other]
      by (auto simp: send_body_def bnd_def thn_def gets_def ret_def of_opt_def GetSize_def Front_def is_record_def pop_data_def
          Pop_def modify_def keeps_refl split: option.split)
  next
    case data
    then have eq: "send_body c k s = bnd (of_opt (GetDataNo p)) (\<lambda>_. bnd (send_record c p) (\<lambda>(x, ack).
        if lost x then bnd (reconnect c) (\<lambda>again. if again then ret (Inl k) else ret (Inr ())) else judge_ack p ack k)) s"
      by (cases "GetDataNo p") (simp_all add: send_body_def bnd_def gets_def ret_def of_opt_def GetSize_def Front_def is_record_def)
    show ?thesis
      unfolding eq by (rule moves_run, rule moves_bnd [OF preorder_keeps moves_of_opt [OF preorder_keeps] exchange_keeps])
  qed
qed


text \<open>
  C2: no record is lost without an acknowledgement.  In a round of the sending thread during which the server
  delivers no \<open>ACK\<close> byte and no other thread removes records, whatever else happens (lost connections,
  negotiations, errors, new records, a failing modem), every record that was in the queue stays in it, in
  order, and new ones only follow them.
\<close>

theorem unacknowledged_kept:
  assumes "deaf s" "doProcess s = (r, s')"
  shows "prefix (filter is_record (dataQueue s)) (filter is_record (dataQueue s'))"
proof -
  have "moves keeps doProcess"
    unfolding doProcess_def send_session_def while_on_def while_off_def SendCurrentData_def
    by (intro keep.R_basic keep.moves_R_channels moves_keeps_send_body moves_keeps_rest hoare_rules)
  from movesD [OF this assms(2)] assms(1) show ?thesis by (simp add: keeps_def)
qed

theorem unacknowledged_kept_witness:
  "prefix [packet7]
     (filter is_record
       (dataQueue (snd (doProcess ((agent1 (replicate 6 (reply0 (-1))))\<lparr>bPowerOff := False, dataQueue := [packet7]\<rparr>)))))"
proof -
  let ?s = "(agent1 (replicate 6 (reply0 (-1))))\<lparr>bPowerOff := False, dataQueue := [packet7]\<rparr>"
  have "deaf ?s"
    by (simp add: deaf_def heard_def agent1_def modem1_def agent.defs modem.defs world.defs world0_def reply0_def)
  moreover have "is_record packet7" by code_simp
  ultimately show ?thesis using unacknowledged_kept [of ?s, OF _ surjective_pairing] by simp
qed

section \<open>Records that are acknowledged\<close>

context channel
begin

lemma collect_ack_feeds:
  "feeds ch s bs t \<Longrightarrow> ch_Read ch 1 t = (Val [], u) \<Longrightarrow>
   loop (pleft ch) (collect_ack_body ch) b (s, c) = (Val (), (u, c @ b # bs))"
proof (induction bs arbitrary: b c s)
  case Nil
  then have "read1 ch (s, c @ [b]) = (Val None, (u, c @ [b]))" by (simp add: read1_eq_None)
  then show ?case
    by (subst loop_unfold [OF consumes_collect_ack])
      (simp add: collect_ack_body_def append_cache_def prog_simps bnd_def ret_def)
next
  case (Cons x bs)
  then obtain s1 where s1: "ch_Read ch 1 s = (Val [x], s1)" "feeds ch s1 bs t" by auto
  have "collect_ack_body ch b (s, c) = (Val (Inl x), (s1, c @ [b]))"
    using read1_Some [OF s1(1), of "c @ [b]"]
    by (simp add: collect_ack_body_def append_cache_def prog_simps bnd_def ret_def)
  then show ?case
    using Cons.IH [OF s1(2) Cons.prems(2)] by (subst loop_unfold [OF consumes_collect_ack]) (simp add: bnd_def)
qed

lemma ReceiveAckFrom_feeds:
  assumes "ch_Read ch 1 s = (Val [a], s1)" "a = ACK \<or> a = NAK" "ch_SetTimeOut ch 10000000 s1 = (Val (), s2)"
    "feeds ch s2 bs t" "ch_Read ch 1 t = (Val [], u)"
  shows "ReceiveAckFrom ch (s, c) = (Val (), (u, a # bs))"
proof -
  have tmo: "outer (ch_SetTimeOut ch 10000000) (s1, []) = (Val (), (s2, []))"
    using assms(3) by (simp add: outer_def)
  note steps = bnd_Val [of "read1 ch" "(s, [])", OF read1_Some [OF assms(1), of "[]"]] 
    thn_Val [of "outer (ch_SetTimeOut ch 10000000)" "(s1, [])", OF tmo]
    bnd_Val [of "scan_start ch (\<lambda>b. b = ACK \<or> b = NAK) a" "(s2, [])",
      OF scan_start_hit [of "\<lambda>b. b = ACK \<or> b = NAK" a, OF assms(2)]]
  show ?thesis
    using collect_ack_feeds [OF assms(4,5), of a "[]"]
    by (simp add: ReceiveAckFrom_def clear_cache_def prog_simps steps)
qed

end

text \<open>A server that acknowledges: it takes each record, answers with its acknowledgement, byte by byte, and is then silent.\<close>

definition silence :: reply where
  "silence = (reply0 (-1))\<lparr>r_errno := EAGAIN\<rparr>"

definition ack_bytes :: "byte \<Rightarrow> u16 \<Rightarrow> byte list" where
  "ack_bytes m n = [ACK, m] @ cmdWord DataRequest @ be16 n"

definition acknowledging :: "byte \<Rightarrow> queue \<Rightarrow> reply list" where
  "acknowledging m q =
     concat (map (\<lambda>p. reply0 74 # map byte_reply (ack_bytes m (the (GetDataNo p))) @ [silence]) q)"

definition sendable :: "packet \<Rightarrow> bool" where
  "sendable p = (is_record p \<and> sizeof DataPacketFrame \<le> length p)"

text \<open>The records passed to \<open>send\<close>.\<close>

definition written :: "'z world_scheme \<Rightarrow> byte list list" where
  "written w = concat (map (\<lambda>e. case e of EvSend h bs \<Rightarrow> [bs] | _ \<Rightarrow> []) (trace w))"

text \<open>A connected data port and nothing pending, with the replies \<open>rs\<close> to come.\<close>

definition linked :: "reply list \<Rightarrow> 'z agent_scheme \<Rightarrow> 'z agent_scheme \<Rightarrow> bool" where
  "linked rs s s' =
     (script s' = rs \<and> pending s' = [] \<and> bConnected (srvData s') \<and> bPowerOff s' = bPowerOff s \<and>
      dataQueue s' = dataQueue s)"

lemma absorb_nil: "pending s = [] \<Longrightarrow> absorb s = s"
  by (simp add: absorb_def)

lemmas link_defs = linked_def written_def tcp_channel_def on_tcp_def on_obj_def shared_def absorb_nil run_defs tcp_defs
  byte_reply_def silence_def reply0_def

lemma link_read:
  assumes "linked (byte_reply b # rs) s0 s"
  shows "\<exists>s'. ch_Read (agent_channel (Tcp DataPort)) 1 s = (Val [b], s') \<and> linked rs s0 s' \<and> written s' = written s"
  using assms by (auto simp: link_defs TCPPort_Read_def Let_def)

lemma link_silence:
  assumes "linked (silence # rs) s0 s"
  shows "\<exists>s'. ch_Read (agent_channel (Tcp DataPort)) 1 s = (Val [], s') \<and> linked rs s0 s' \<and> written s' = written s"
  using assms by (auto simp: link_defs TCPPort_Read_def Let_def)

lemma link_timeout:
  assumes "linked rs s0 s"
  shows "\<exists>s'. ch_SetTimeOut (agent_channel (Tcp DataPort)) t s = (Val (), s') \<and> linked rs s0 s' \<and> written s' = written s"
  using assms by (auto simp: link_defs TCPPort_SetTimeOut_def)

lemma link_write:
  assumes "linked (reply0 n # rs) s0 s" "0 \<le> n"
  shows "\<exists>s' v. ch_Write (agent_channel (Tcp DataPort)) bs s = (Val v, s') \<and> linked rs s0 s' \<and> written s' = written s @ [bs]"
  using assms by (auto simp: link_defs TCPPort_Write_def)

lemma link_feeds:
  "linked (map byte_reply bs @ rs) s0 s \<Longrightarrow>
   \<exists>s'. feeds (agent_channel (Tcp DataPort)) s bs s' \<and> linked rs s0 s' \<and> written s' = written s"
proof (induction bs arbitrary: s)
  case (Cons b bs)
  then obtain s1 where s1: "ch_Read (agent_channel (Tcp DataPort)) 1 s = (Val [b], s1)" "linked (map byte_reply bs @ rs) s0 s1"
    "written s1 = written s"
    using link_read [of b "map byte_reply bs @ rs" s0 s] by (auto simp del: agent_channel.simps)
  with Cons.IH [OF s1(2)] show ?case by (auto simp del: agent_channel.simps)
qed simp

lemma those_map_Some: "those (map Some xs) = Some xs"
  by (induction xs) simp_all

lemma those_peek: "n \<le> length p \<Longrightarrow> those (map (peek p) [0..<n]) = Some (take n p)"
proof -
  assume "n \<le> length p"
  then have "map (peek p) [0..<n] = map Some (take n p)"
    by (intro nth_equalityI) (simp_all add: peek_def)
  then show ?thesis by (simp add: those_map_Some)
qed

lemma link_ack:
  assumes "linked (map byte_reply (a # bs) @ silence # rs) s0 s" "a = ACK \<or> a = NAK"
  shows "\<exists>s'. ReceiveAckFrom (agent_channel (Tcp DataPort)) (s, c) = (Val (), (s', a # bs)) \<and> linked rs s0 s' \<and>
    written s' = written s"
proof -
  let ?ch = "agent_channel (Tcp DataPort)"
  obtain s1 where s1: "ch_Read ?ch 1 s = (Val [a], s1)" "linked (map byte_reply bs @ silence # rs) s0 s1"
    "written s1 = written s"
    using link_read [of a "map byte_reply bs @ silence # rs" s0 s] assms(1) by (auto simp del: agent_channel.simps)
  obtain s2 where s2: "ch_SetTimeOut ?ch 10000000 s1 = (Val (), s2)" "linked (map byte_reply bs @ silence # rs) s0 s2"
    "written s2 = written s1"
    using link_timeout [OF s1(2)] by blast
  obtain t where t: "feeds ?ch s2 bs t" "linked (silence # rs) s0 t" "written t = written s2"
    using link_feeds [OF s2(2)] by blast
  obtain u where u: "ch_Read ?ch 1 t = (Val [], u)" "linked rs s0 u" "written u = written t"
    using link_silence [OF t(2)] by blast
  show ?thesis
    using agent.ReceiveAckFrom_feeds [OF s1(1) assms(2) s2(1) t(1) u(1), of c] u s1 s2 t by (simp del: agent_channel.simps)
qed

lemma ack_bytes_accepted:
  "acks (ack_bytes m n) p = map_option (\<lambda>k. n = k) (GetDataNo p)" "GetAckNo (ack_bytes m n) \<noteq> None"
  by (auto simp: acks_def ack_bytes_def IsAck_def IsAckNo_def GetAckNo_def cmdWord_def peek16_def be16_def
      split: option.split)

text \<open>One round of the loop: the record at the front is sent, acknowledged and removed.\<close>

lemma send_body_delivers:
  assumes s: "linked (acknowledging m (p # q) @ rs) s s" "dataQueue s = p # q" "sendable p" "\<not> bPowerOff s"
  shows "\<exists>s'. send_body (Tcp DataPort) k s = (Val (Inl 0), s') \<and> linked (acknowledging m q @ rs) s' s' \<and>
    dataQueue s' = q \<and> \<not> bPowerOff s' \<and> written s' = written s @ [take (sizeof DataPacketFrame) p]"
proof -
  let ?ch = "agent_channel (Tcp DataPort)" and ?rs = "acknowledging m q @ rs" and ?bs = "take (sizeof DataPacketFrame) p"
  have size: "sizeof DataPacketFrame = 74" by code_simp
  obtain n where n: "GetDataNo p = Some n"
    using s(3) numbered_DataNo [of p] by (auto simp: sendable_def size numbered_def)
  have script: "linked (reply0 74 # map byte_reply (ack_bytes m n) @ silence # ?rs) s s"
    using s(1) by (simp add: acknowledging_def n)
  obtain s1 v where s1: "ch_Write ?ch ?bs s = (Val v, s1)" "linked (map byte_reply (ack_bytes m n) @ silence # ?rs) s s1"
    "written s1 = written s @ [?bs]"
    using link_write [OF script, of ?bs] by auto
  obtain s2 where s2: "ReceiveAckFrom ?ch (s1, []) = (Val (), (s2, ack_bytes m n))" "linked ?rs s s2" "written s2 = written s1"
    using link_ack [of ACK "m # cmdWord DataRequest @ be16 n" ?rs s s1 "[]"] s1(2) by (auto simp: ack_bytes_def simp del: agent_channel.simps)
  have "send_record (Tcp DataPort) p s = (Val (None, ack_bytes m n), s2)"
    using s(3) s1(1) s2(1)
    by (simp add: send_record_def frame_bytes_def those_peek sendable_def call_try_def bnd_def thn_def outer_def of_opt_def
        ret_def del: agent_channel.simps)
  moreover have "judge_ack p (ack_bytes m n) k s2 = (Val (Inl 0), s2\<lparr>dataQueue := q\<rparr>)"
    using s(2,4) s2(2) n ack_bytes_accepted
    by (auto simp: judge_ack_def bnd_def thn_def gets_def of_opt_def ret_def pop_data_def Pop_def modify_def linked_def
        IsPowerOff_def split: option.split)
  ultimately have "send_body (Tcp DataPort) k s = (Val (Inl 0), s2\<lparr>dataQueue := q\<rparr>)"
    using s(2,3) n
    by (simp add: send_body_def bnd_def gets_def of_opt_def GetSize_def Front_def sendable_def is_record_def lost_def)
  then show ?thesis using s2 s1(3) s(4) by (auto simp: linked_def written_def)
qed

lemma loop_delivers:
  "linked (acknowledging m q @ rs) s s \<Longrightarrow> dataQueue s = q \<Longrightarrow> list_all sendable q \<Longrightarrow> \<not> bPowerOff s \<Longrightarrow>
   length q < n \<Longrightarrow>
   \<exists>s'. loopN n (send_body (Tcp DataPort)) k s = (Val (), s') \<and> linked rs s' s' \<and> dataQueue s' = [] \<and>
     written s' = written s @ map (take (sizeof DataPacketFrame)) q"
proof (induction q arbitrary: s n k)
  case Nil
  then obtain n' where "n = Suc n'" by (cases n) auto
  with Nil show ?case
    by (simp add: send_body_def bnd_def gets_def ret_def GetSize_def acknowledging_def)
next
  case (Cons p q)
  then obtain n' where n: "n = Suc n'" "length q < n'" by (cases n) auto
  obtain s1 where s1: "send_body (Tcp DataPort) k s = (Val (Inl 0), s1)" "linked (acknowledging m q @ rs) s1 s1"
    "dataQueue s1 = q" "\<not> bPowerOff s1" "written s1 = written s @ [take (sizeof DataPacketFrame) p]"
    using send_body_delivers [OF Cons.prems(1,2)] Cons.prems(3,4) by auto
  obtain s' where "loopN n' (send_body (Tcp DataPort)) 0 s1 = (Val (), s')" "linked rs s' s'" "dataQueue s' = []"
    "written s' = written s1 @ map (take (sizeof DataPacketFrame)) q"
    using Cons.IH [OF s1(2,3) _ s1(4) n(2)] Cons.prems(3) by auto
  then show ?case using s1 n(1) by (simp add: bnd_def)
qed

text \<open>
  C1: a server that acknowledges gets every record.  With the data port connected, the modem on and a server
  that takes each record and answers with its acknowledgement, \<open>SendCurrentData\<close> returns, the queue is
  empty, and the records were sent in the order of the queue, each exactly once and with the
  size of a data frame.
\<close>

theorem records_delivered:
  assumes "script s = acknowledging m (dataQueue s) @ rs" "pending s = []" "list_all sendable (dataQueue s)"
    "bConnected (srvData s)" "\<not> IsPowerOff s" "nIntervalSetting s \<noteq> 0"
  shows "\<exists>s'. SendCurrentData (Tcp DataPort) s = (Val (), s') \<and> dataQueue s' = [] \<and> script s' = rs \<and>
    written s' = written s @ map (take (sizeof DataPacketFrame)) (dataQueue s)"
proof -
  obtain tm where tm: "setReservedTime (nIntervalSetting s) True (gettimeofday s) = Some tm"
    using assms(6) by (auto simp: setReservedTime_def cdiv_def)
  let ?s = "s\<lparr>tmSendDataActive := tm\<rparr>" and ?n = "Suc (send_budget (s\<lparr>tmSendDataActive := tm\<rparr>) + length (dataQueue s))"
  have "linked (acknowledging m (dataQueue s) @ rs) ?s ?s"
    using assms by (simp add: linked_def)
  then obtain s' where s': "loopN ?n (send_body (Tcp DataPort)) 0 ?s = (Val (), s')" "linked rs s' s'" "dataQueue s' = []"
    "written s' = written ?s @ map (take (sizeof DataPacketFrame)) (dataQueue s)"
    using loop_delivers [of m "dataQueue s" rs ?s ?n 0] assms(3,5) by (auto simp: IsPowerOff_def simp del: loopN.simps)
  moreover have "loopN ?n (send_body (Tcp DataPort)) 0 ?s = loop send_budget (send_body (Tcp DataPort)) 0 ?s"
    by (rule send_budget_enough) simp
  ultimately have "SendCurrentData (Tcp DataPort) s = (Val (), s')"
    using tm by (simp add: SendCurrentData_def bnd_def thn_def gets_def of_opt_def modify_def del: loopN.simps)
  with s' show ?thesis by (auto simp: linked_def written_def)
qed

definition record74 :: packet where
  "record74 = BuildPacket (cmdWord DataRequest @ [0, 2, 0, 7] @ replicate 61 0) 1"

theorem records_delivered_witness:
  "\<exists>s'. SendCurrentData (Tcp DataPort)
      ((agent1 (acknowledging 1 [record74]))\<lparr>bPowerOff := False, dataQueue := [record74], srvData := tcp1\<rparr>) = (Val (), s') \<and>
    dataQueue s' = [] \<and> written s' = [record74]"
proof -
  let ?s = "(agent1 (acknowledging 1 [record74]))\<lparr>bPowerOff := False, dataQueue := [record74], srvData := tcp1\<rparr>"
  have fields: "script ?s = acknowledging 1 [record74]" "pending ?s = []" "dataQueue ?s = [record74]" "srvData ?s = tcp1"
    "nIntervalSetting ?s = 600" "\<not> IsPowerOff ?s" "written ?s = []"
    by (simp_all add: agent1_def modem1_def agent.defs modem.defs world.defs world0_def IsPowerOff_def written_def)
  have len: "length record74 = 74" by (simp add: record74_def cmdWord_def)
  have ok: "sendable record74" "sizeof DataPacketFrame = 74"
    by code_simp+
  from records_delivered [of ?s 1 "[]"] fields ok len show ?thesis by (auto simp: tcp1_def)
qed

end
