(* ===== verification/Threads.thy ===== *)
theory Threads
  imports Sharing DeviceAgent
begin

text \<open>
  The three threads together: the invariant of the state they share, from the start of the working process
  through any sequence of rounds, and the proof that no exception ends a thread.
\<close>

section \<open>The invariant\<close>

definition status_ok :: "'z agent_scheme \<Rightarrow> bool" where
  "status_ok s = (tcp_ok (UT_ATPort s) \<and> queue_ok (statusQueue s))"

definition queues_ok :: "'z agent_scheme \<Rightarrow> bool" where
  "queues_ok s = (status_ok s \<and> queue_ok (dataQueue s))"

definition system_ok :: "'z agent_scheme \<Rightarrow> bool" where
  "system_ok s = (ports_ok s \<and> queues_ok s)"

lemmas inv_defs = status_ok_def queues_ok_def system_ok_def

text \<open>A packet that \<open>Push\<close> accepts is long enough for a record number.\<close>

lemma Push_keeps:
  assumes "queue_ok q" "Push q p = Some q'"
  shows "queue_ok q'"
proof (cases "p = [] \<or> numbered p")
  case True
  with assms Push_queue_ok show ?thesis by (auto simp: Push_Nil)
next
  case False
  then have "GetDataNo p = None" by (auto simp: GetDataNo_def numbered_def peek16_def peek_def Suc_le_eq)
  with assms(2) show ?thesis by (simp add: Push_def)
qed

lemma try_upd_keeps:
  "queue_ok q \<Longrightarrow> queue_ok (try_upd (\<lambda>q. Push q p) q)" "queue_ok q \<Longrightarrow> queue_ok (try_upd Pop q)"
  by (auto simp: try_upd_def intro: Push_keeps Pop_queue_ok split: option.split)

lemma interfere_keeps:
  "status_ok s \<Longrightarrow> status_ok (interfere i s)" "queues_ok s \<Longrightarrow> queues_ok (interfere i s)"
  by (cases i; simp add: inv_defs try_upd_keeps)+

lemma fold_interfere_keeps:
  "status_ok s \<Longrightarrow> status_ok (fold interfere is s)" "queues_ok s \<Longrightarrow> queues_ok (fold interfere is s)"
  by (induction "is" arbitrary: s) (auto intro: interfere_keeps)

lemma absorb_keeps: "status_ok s \<Longrightarrow> status_ok (absorb s)" "queues_ok s \<Longrightarrow> queues_ok (absorb s)"
  unfolding absorb_def by (rule fold_interfere_keeps; simp add: inv_defs)+

lemma put_keeps:
  "status_ok (tcp_put r p s) = status_ok s" "queues_ok (tcp_put r p s) = queues_ok s"
  by (cases r; simp add: inv_defs)+

lemma soft_keeps: "soft s s' \<Longrightarrow> queues_ok s \<Longrightarrow> queues_ok s'" "soft s s' \<Longrightarrow> status_ok s \<Longrightarrow> status_ok s'"
  by (simp_all add: inv_defs soft_def)

interpretation queues: tolerant "preserves queues_ok"
  by unfold_locales (auto simp: preserves_def put_keeps absorb_keeps soft_keeps)

lemma moves_preserves_conj:
  "moves (preserves P) m \<Longrightarrow> moves (preserves Q) m \<Longrightarrow> moves (preserves (\<lambda>s. P s \<and> Q s)) m"
  by (simp add: moves_def preserves_def)

lemma moves_ports_channels:
  "moves (preserves ports_ok) (NegoiateDataChannel r)" "moves (preserves ports_ok) (NegoiateControlChannel r)"
  unfolding track_moves
  by (rule track_weaken [OF track_NegoiateDataChannel] track_weaken [OF track_NegoiateControlChannel]; simp)+

interpretation system: thread_steps "preserves system_ok"
proof
  show "preserves system_ok s s'" if "soft s s'" for s s' :: "'a agent_scheme"
    using that by (simp add: preserves_def inv_defs soft_def ports_ok_def)
  show "preserves system_ok s (absorb s)" for s :: "'a agent_scheme"
    by (simp add: preserves_def system_ok_def absorb_keeps)
  show "preserves system_ok s (tcp_put r p s)" if "tcp_ok (tcp_get r s) \<longrightarrow> tcp_ok p"
    for r p and s :: "'a agent_scheme"
    using that ports_ok_get ports_ok_put by (auto simp: preserves_def system_ok_def put_keeps)
  show "moves (preserves (system_ok :: 'a agent_scheme \<Rightarrow> bool)) (NegoiateDataChannel r)" for r
    unfolding system_ok_def by (intro moves_preserves_conj moves_ports_channels queues.moves_R_channels)
  show "moves (preserves (system_ok :: 'a agent_scheme \<Rightarrow> bool)) (NegoiateControlChannel r)" for r
    unfolding system_ok_def by (intro moves_preserves_conj moves_ports_channels queues.moves_R_channels)
qed (auto simp: preserves_def inv_defs ports_ok_def intro: Push_keeps Pop_queue_ok)

section \<open>The start of the working process\<close>

definition start_ok :: "'z agent_scheme \<Rightarrow> bool" where
  "start_ok s = (ports_ok s \<and> status_ok s)"

interpretation start: soft_steps "preserves start_ok"
proof
  show "preserves start_ok s s'" if "soft s s'" for s s' :: "'a agent_scheme"
    using that by (auto simp: preserves_def start_ok_def ports_ok_def soft_def inv_defs)
  show "preserves start_ok s (tcp_put r p s)" if "tcp_ok (tcp_get r s) \<longrightarrow> tcp_ok p"
    for r p and s :: "'a agent_scheme"
    using that ports_ok_get ports_ok_put by (auto simp: preserves_def start_ok_def put_keeps)
qed (simp_all add: preserves_def start_ok_def absorb_keeps)

lemma hoare_moves: "moves (preserves P) m \<Longrightarrow> hoare P m (\<lambda>_. P) E" if "\<And>e s. P s \<Longrightarrow> E e s"
  using that by (auto simp: hoare_def moves_def preserves_def split: outcome.splits prod.splits)

lemma hoare_conf: "hoare P (conf g) (\<lambda>_. P) E"
  by (auto simp: hoare_def conf_def bnd_def gets_def of_opt_def split: option.splits)

lemma create_modem_post: "hoare (\<lambda>_. True) create_modem (\<lambda>_ s. tcp_ok (UT_ATPort s)) (\<lambda>_ _. True)"
proof -
  have init: "tcp_ok (UT_ATPort m')"
    if "Modem_init (s\<lparr>at_cache := [], UT_ATPort := TCPPort0\<rparr>) = Some m'" for s m' :: "'z agent_scheme"
    using that by (auto simp: Modem_init_def tcp_ok_def SetRemotePort_def SetRemoteHost_def TCPPort0_def split: option.splits)
  show ?thesis
    by (rule hoareI)
      (auto simp: create_modem_def conf_def bnd_eq_Val thn_def gets_def of_opt_def modify_def init split: option.splits)
qed

lemma create_protocol_post:
  "hoare (\<lambda>s. tcp_ok (UT_ATPort s)) create_protocol (\<lambda>_. start_ok) (\<lambda>_ _. True)"
  by (rule hoareI)
    (auto simp: create_protocol_def conf_def bnd_eq_Val thn_def gets_def of_opt_def modify_def start_ok_def inv_defs
      ports_ok_def tcp_ok_def TCPPort0_def Protocol_init_def SetMachine_def Protocol_SetDataPort_def SetCommandPort_def
      SetIntervalSecond_def split: option.splits)

lemma Load_post:
  fixes s w :: "'z agent_scheme"
  assumes "Load f (s, q0) = (v, (w, q))"
  shows "soft s w \<and> (queue_ok q0 \<longrightarrow> queue_ok q)"
proof -
  have "queue_ok q'" if "load_loop [] bs = Some q'" for bs q'
    using load_loop_safe [of "[]" bs] that by simp
  then show ?thesis
    using assms preorder_soft
    by (auto simp: Load_def bnd_def outer_def gets_def of_opt_def modify_def ret_def preorder_rel_def reflp_def
        split: prod.splits outcome.splits option.splits if_splits dest!: movesD [OF moves_soft_posix(1)])
qed

lemma LoadStatus_post: "hoare start_ok LoadStatus (\<lambda>_. start_ok) (\<lambda>_ _. True)"
proof (rule hoareI)
  fix s s' :: "'a agent_scheme" and u :: unit
  assume s: "start_ok s" and run: "LoadStatus s = (Val u, s')"
  obtain w q where load: "Load status_file (s, statusQueue s) = (Val (), (w, q))" "s' = w\<lparr>statusQueue := q\<rparr>"
    using run by (auto simp: LoadStatus_def on_obj_def split: prod.splits)
  from Load_post [OF load(1)] s load(2) show "start_ok s'"
    by (simp add: start_ok_def inv_defs soft_def ports_ok_def)
qed simp

lemma set_up_post: "hoare (\<lambda>_. True) set_up (\<lambda>_. start_ok) (\<lambda>_ _. True)"
proof -
  have any: "hoare (\<lambda>_. True) m (\<lambda>_ _. True) (\<lambda>_ _. True)" for m :: "('a agent_scheme, 'b) prog"
    by (rule hoareI) simp_all
  have time: "hoare start_ok (first_time n) (\<lambda>_. start_ok) (\<lambda>_ _. True)" for n
    unfolding first_time_def
    by (rule hoare_moves) (simp, intro start.moves_R_clock start.R_basic hoare_rules)
  have clock: "hoare start_ok (set_clock n) (\<lambda>_. start_ok) (\<lambda>_ _. True)" for n
    unfolding set_clock_def run_cmd_def
    by (rule hoare_moves) (simp, intro start.R_basic hoare_rules)
  have opened: "hoare start_ok (on_mp (SerialPort_Open dev)) (\<lambda>_. start_ok) (\<lambda>_ _. True)" for dev
    by (rule hoare_moves) (simp, intro start.R_basic)
  show ?thesis
    unfolding set_up_def
    by (rule hoare_bnd [OF hoare_conf] hoare_thn [OF any] hoare_thn [OF create_modem_post]
        hoare_thn [OF create_protocol_post] hoare_thn [OF LoadStatus_post] hoare_thn [OF opened] hoare_bnd [OF time]
        clock)+
qed

lemma start_post: "thn set_up start_tasks s = (Val u, s') \<Longrightarrow> system_ok s'"
proof -
  have run: "hoare system_ok (thn (DataTask_run (-1)) (thn ControlTask_run (ret ()))) (\<lambda>_. system_ok) (\<lambda>_ _. True)"
    unfolding DataTask_run_def ControlTask_run_def
    by (rule hoare_moves) (simp, intro system.R_basic hoare_rules)
  have clear: "hoare start_ok (modify (dataQueue_update (\<lambda>_. []))) (\<lambda>_. system_ok) (\<lambda>_ _. True)"
    by (rule hoare_modify) (simp add: start_ok_def inv_defs ports_ok_def)
  have "hoare (\<lambda>_. True) (thn set_up start_tasks) (\<lambda>_. system_ok) (\<lambda>_ _. True)"
    unfolding start_tasks_def by (rule hoare_thn [OF set_up_post hoare_thn [OF clear run]])
  then show "thn set_up start_tasks s = (Val u, s') \<Longrightarrow> system_ok s'"
    by (auto dest: hoare_ValD)
qed

section \<open>Rounds of the threads\<close>

text \<open>
  One step of the system: the start of the sending thread, a round of one of the three threads, or a change
  of the environment.  The local packets of a thread may hold anything, and a round may have any
  outcome; what the other threads do during the round is the interference its replies bring.
\<close>

inductive thread_step :: "'z agent_scheme \<Rightarrow> 'z agent_scheme \<Rightarrow> bool" where
  load: "process_start s = (r, s') \<Longrightarrow> thread_step s s'"
| read: "doReadData (s, currentData) = (r, (s', currentData')) \<Longrightarrow> thread_step s s'"
| send: "doProcess s = (r, s') \<Longrightarrow> thread_step s s'"
| control: "control_round cmd s = (r, s') \<Longrightarrow> thread_step s s'"
| environment: "thread_step s (s\<lparr>now := t, script := script s @ rs, files := f\<rparr>)"

inductive reachable :: "'z agent_scheme \<Rightarrow> bool" where
  started: "thn set_up start_tasks s = (Val (), s') \<Longrightarrow> reachable s'"
| step: "reachable s \<Longrightarrow> thread_step s s' \<Longrightarrow> reachable s'"

inductive_cases thread_stepE: "thread_step s s'"

lemma process_start_keeps: "system_ok s \<Longrightarrow> process_start s = (r, s') \<Longrightarrow> system_ok s'"
proof -
  have "moves (preserves system_ok) (on_obj dataQueue (\<lambda>q. dataQueue_update (\<lambda>_. q)) (Load data_file) :: ('a, unit) aprog)"
  proof (rule movesI)
    fix s :: "'a agent_scheme"
    obtain v w q where load: "Load data_file (s, dataQueue s) = (v, (w, q))" by (metis prod.collapse)
    from Load_post [OF load] load
    show "preserves system_ok s (snd (on_obj dataQueue (\<lambda>q. dataQueue_update (\<lambda>_. q)) (Load data_file) s))"
      by (auto simp: on_obj_def preserves_def inv_defs soft_def ports_ok_def)
  qed
  then have "moves (preserves (system_ok :: 'a agent_scheme \<Rightarrow> bool)) process_start"
    unfolding process_start_def by (intro system.R_basic hoare_rules)
  then show "system_ok s \<Longrightarrow> process_start s = (r, s') \<Longrightarrow> system_ok s'" for s :: "'a agent_scheme" and r s'
    by (auto dest!: movesD simp: preserves_def)
qed

lemma step_keeps: "thread_step s s' \<Longrightarrow> system_ok s \<Longrightarrow> system_ok s'"
proof (induction rule: thread_step.induct)
  case (load s r s')
  then show ?case using process_start_keeps by blast
next
  case (read s p r s' p')
  from movesD [OF system.moves_R_doReadData read(1)] read(2) show ?case by (simp add: preserves_def)
next
  case (send s r s')
  from movesD [OF system.moves_R_doProcess send(1)] send(2) show ?case by (simp add: preserves_def)
next
  case (control cmd s r s')
  from movesD [OF system.moves_R_control control(1)] control(2) show ?case by (simp add: preserves_def)
next
  case (environment s t rs f)
  then show ?case by (simp add: inv_defs ports_ok_def)
qed

text \<open>
  C3: the invariant of the shared state.  From the start of the working process on, after any sequence of
  rounds of the threads and whatever the network, the modem, the monitoring post and the files do, the
  three TCP ports are in a consistent state (connected only with an open socket), and in both queues
  every packet carries a record number and no number occurs twice.
\<close>

theorem system_invariant:
  assumes "reachable s"
  shows "tcp_ok (srvData s) \<and> tcp_ok (srvControl s) \<and> tcp_ok (UT_ATPort s) \<and> queue_ok (dataQueue s) \<and> queue_ok (statusQueue s)"
proof -
  have "system_ok s" using assms by induction (auto intro: start_post step_keeps)
  then show ?thesis by (simp add: inv_defs ports_ok_def)
qed

lemma boot_run: "fst (thn set_up start_tasks (agent1 (replicate 30 (reply0 (-1))))) = Val ()"
  by code_simp

theorem system_invariant_witness:
  "queue_ok (statusQueue (snd (thn set_up start_tasks (agent1 (replicate 30 (reply0 (-1)))))))"
proof -
  have "reachable (snd (thn set_up start_tasks (agent1 (replicate 30 (reply0 (-1))))))"
    by (rule reachable.started [of "agent1 (replicate 30 (reply0 (-1)))"]) (simp add: boot_run prod_eq_iff)
  from system_invariant [OF this] show ?thesis by simp
qed

section \<open>No exception ends a thread\<close>

lemma no_throw_system: "no_throw (system c)" "no_throw (emit ev)"
  unfolding system_def emit_def by (intro no_throw_rules no_throw_syscall)+

lemma no_throw_serial:
  "no_throw (SerialPort_Read n)" "no_throw (SerialPort_Write bs)" "no_throw SerialPort_Open0"
  "no_throw SerialPort_Lock" "no_throw SerialPort_Unlock" "no_throw (SerialPort_SetTimeOut t)"
proof -
  have basic: "no_throw (gets_port f)" "no_throw (sets_port g)" for f g
    unfolding gets_port_def sets_port_def by (intro no_throw_rules)+
  have close: "no_throw SerialPort_Close"
    unfolding SerialPort_Close_def by (intro no_throw_rules basic no_throw_system)
  have opens: "no_throw SerialPort_Open0"
    unfolding SerialPort_Open0_def SerialPort_Open_def SetCom_def
    by (intro no_throw_rules basic close no_throw_system no_throw_syscall)
  have reopens: "no_throw reopen"
    unfolding reopen_def by (intro no_throw_rules basic opens)
  have "no_throw (read_try len k)" for len k
    by (induction len k rule: read_try.induct, subst read_try.simps)
      (auto simp: sys_read_def intro!: no_throw_rules basic close no_throw_posix no_throw_syscall)
  then show "no_throw (SerialPort_Read n)"
    unfolding SerialPort_Read_def by (intro no_throw_rules reopens)
  show "no_throw (SerialPort_Write bs)"
    unfolding SerialPort_Write_def Let_def
    by (intro no_throw_rules basic close reopens no_throw_system no_throw_syscall)
  show "no_throw SerialPort_Open0" by (rule opens)
  show "no_throw SerialPort_Lock" "no_throw SerialPort_Unlock" "no_throw (SerialPort_SetTimeOut t)"
    unfolding SerialPort_Lock_def SerialPort_Unlock_def SerialPort_SetTimeOut_def
    by (intro no_throw_rules basic no_throw_system no_throw_syscall)+
qed

text \<open>The serial port throws no exception, so a dialogue with the monitoring post throws none.\<close>

lemma no_throw_mp:
  "no_throw (ch_Read (agent_channel DevMP) n)" "no_throw (ch_Write (agent_channel DevMP) bs)"
  "no_throw (ch_Open (agent_channel DevMP))" "no_throw (ch_Lock (agent_channel DevMP))"
  "no_throw (ch_Unlock (agent_channel DevMP))" "no_throw (ch_SetTimeOut (agent_channel DevMP) t)"
  by (simp_all add: serial_channel_def no_throw_on no_throw_serial)

lemma no_throw_talk:
  "no_throw (SendTo (agent_channel DevMP) p)" "no_throw (recv DevMP p)" "no_throw (ReceiveFrameFrom (agent_channel DevMP))"
  unfolding SendTo_def recv_def case_prod_beta
  by (intro no_throw_rules no_throw_mp no_throw_ReceiveFrameFrom)+

lemma no_throw_Save: "no_throw (Save f q)"
proof -
  have "no_throw (Save_loop fd f q)" for fd
    by (induction q) (auto simp: write_file_def Let_def intro!: no_throw_rules no_throw_syscall)
  then show ?thesis unfolding Save_def Let_def by (intro no_throw_rules no_throw_syscall no_throw_system)
qed

lemma no_throw_PowerOff: "no_throw PowerOff"
  unfolding PowerOff_def by (intro no_throw_rules no_throw_off no_throw_Close)

lemmas thread_intros = no_throw_intros no_throw_system no_throw_syscall no_throw_mp no_throw_talk no_throw_serial
  no_throw_Save no_throw_PowerOn no_throw_PowerOff no_throw_channels

lemma no_throw_reading:
  "no_throw (RequestCurrentData DevMP)" "no_throw (HealthCheck DevMP)" "no_throw store_data" "no_throw PatrolRest"
  unfolding RequestCurrentData_def request_data_def request_try_def Protocol_GetMPTime_def GetMPIntervalSecond_def
    adjust_clock_def wait_sample_def HealthCheck_def note_status_def store_data_def push_data_def SaveData_def
    clear_cache_def PatrolRest_def Let_def
  by (intro thread_intros)+

lemma no_throw_sending: "no_throw (SendCurrentData (Tcp r))" "no_throw (HealthCheckReport (Tcp r))"
  unfolding SendCurrentData_def send_body_def send_record_def reconnect_def chan_ref.case judge_ack_def pop_data_def
    HealthCheckReport_def report_body_def report_exchange_def judge_report_def pop_status_def case_prod_beta
  by (intro thread_intros)+

lemma no_throw_control:
  "no_throw switch_on" "no_throw (serve_command cmd)" "no_throw go_to_sleep" "no_throw IsTimeForSleep"
  unfolding switch_on_def serve_command_def command_failed_def go_to_sleep_def SleepForPowerOn_def IsTimeForSleep_def
    tcp_Close_def
  by (intro thread_intros)+

lemma no_throw_rounds: "no_throw doReadData" "no_throw doProcess" "no_throw (control_round cmd)"
  unfolding doReadData_def clear_cache_def doProcess_def send_session_def while_on_def while_off_def tcp_Close_def
    control_round_def
  by (intro thread_intros no_throw_reading no_throw_sending no_throw_control)+

text \<open>
  C4: no \<open>ChannelException\<close> leaves a thread (which would end the process): whatever the environment does, a
  round of the reading, the sending or the control thread does not throw.
\<close>

theorem threads_never_throw:
  "fst (doReadData (s, currentData)) \<noteq> Throw e \<and> fst (doProcess s) \<noteq> Throw e \<and> fst (control_round cmd s) \<noteq> Throw e"
  using no_throw_rounds unfolding no_throw_def by blast

end
