(* ===== verification/KernelCrc.thy ===== *)
theory KernelCrc
  imports CRC16
begin

text \<open>
  The checksums of the kernel library (crc-ccitt.c, crc16.c, crc-itu-t.c, crc-t10dif.c and crc7.c with their headers, in
  src/os/linux-2.6.30).  Two locales hold the argument that a table of 256 entries does the work of eight
  bit steps, once for registers that shift down and once for registers that shift up; the four 16-bit
  checksums interpret them.
\<close>

section \<open>The code\<close>

definition crc_ccitt_table :: "u16 list" where
  "crc_ccitt_table = [
   0x0000, 0x1189, 0x2312, 0x329B, 0x4624, 0x57AD, 0x6536, 0x74BF,
   0x8C48, 0x9DC1, 0xAF5A, 0xBED3, 0xCA6C, 0xDBE5, 0xE97E, 0xF8F7,
   0x1081, 0x0108, 0x3393, 0x221A, 0x56A5, 0x472C, 0x75B7, 0x643E,
   0x9CC9, 0x8D40, 0xBFDB, 0xAE52, 0xDAED, 0xCB64, 0xF9FF, 0xE876,
   0x2102, 0x308B, 0x0210, 0x1399, 0x6726, 0x76AF, 0x4434, 0x55BD,
   0xAD4A, 0xBCC3, 0x8E58, 0x9FD1, 0xEB6E, 0xFAE7, 0xC87C, 0xD9F5,
   0x3183, 0x200A, 0x1291, 0x0318, 0x77A7, 0x662E, 0x54B5, 0x453C,
   0xBDCB, 0xAC42, 0x9ED9, 0x8F50, 0xFBEF, 0xEA66, 0xD8FD, 0xC974,
   0x4204, 0x538D, 0x6116, 0x709F, 0x0420, 0x15A9, 0x2732, 0x36BB,
   0xCE4C, 0xDFC5, 0xED5E, 0xFCD7, 0x8868, 0x99E1, 0xAB7A, 0xBAF3,
   0x5285, 0x430C, 0x7197, 0x601E, 0x14A1, 0x0528, 0x37B3, 0x263A,
   0xDECD, 0xCF44, 0xFDDF, 0xEC56, 0x98E9, 0x8960, 0xBBFB, 0xAA72,
   0x6306, 0x728F, 0x4014, 0x519D, 0x2522, 0x34AB, 0x0630, 0x17B9,
   0xEF4E, 0xFEC7, 0xCC5C, 0xDDD5, 0xA96A, 0xB8E3, 0x8A78, 0x9BF1,
   0x7387, 0x620E, 0x5095, 0x411C, 0x35A3, 0x242A, 0x16B1, 0x0738,
   0xFFCF, 0xEE46, 0xDCDD, 0xCD54, 0xB9EB, 0xA862, 0x9AF9, 0x8B70,
   0x8408, 0x9581, 0xA71A, 0xB693, 0xC22C, 0xD3A5, 0xE13E, 0xF0B7,
   0x0840, 0x19C9, 0x2B52, 0x3ADB, 0x4E64, 0x5FED, 0x6D76, 0x7CFF,
   0x9489, 0x8500, 0xB79B, 0xA612, 0xD2AD, 0xC324, 0xF1BF, 0xE036,
   0x18C1, 0x0948, 0x3BD3, 0x2A5A, 0x5EE5, 0x4F6C, 0x7DF7, 0x6C7E,
   0xA50A, 0xB483, 0x8618, 0x9791, 0xE32E, 0xF2A7, 0xC03C, 0xD1B5,
   0x2942, 0x38CB, 0x0A50, 0x1BD9, 0x6F66, 0x7EEF, 0x4C74, 0x5DFD,
   0xB58B, 0xA402, 0x9699, 0x8710, 0xF3AF, 0xE226, 0xD0BD, 0xC134,
   0x39C3, 0x284A, 0x1AD1, 0x0B58, 0x7FE7, 0x6E6E, 0x5CF5, 0x4D7C,
   0xC60C, 0xD785, 0xE51E, 0xF497, 0x8028, 0x91A1, 0xA33A, 0xB2B3,
   0x4A44, 0x5BCD, 0x6956, 0x78DF, 0x0C60, 0x1DE9, 0x2F72, 0x3EFB,
   0xD68D, 0xC704, 0xF59F, 0xE416, 0x90A9, 0x8120, 0xB3BB, 0xA232,
   0x5AC5, 0x4B4C, 0x79D7, 0x685E, 0x1CE1, 0x0D68, 0x3FF3, 0x2E7A,
   0xE70E, 0xF687, 0xC41C, 0xD595, 0xA12A, 0xB0A3, 0x8238, 0x93B1,
   0x6B46, 0x7ACF, 0x4854, 0x59DD, 0x2D62, 0x3CEB, 0x0E70, 0x1FF9,
   0xF78F, 0xE606, 0xD49D, 0xC514, 0xB1AB, 0xA022, 0x92B9, 0x8330,
   0x7BC7, 0x6A4E, 0x58D5, 0x495C, 0x3DE3, 0x2C6A, 0x1EF1, 0x0F78]"

definition crc_ccitt_byte :: "u16 \<Rightarrow> byte \<Rightarrow> u16" where
  "crc_ccitt_byte crc c = drop_bit 8 crc XOR crc_ccitt_table ! unat ((crc XOR ucast c) AND 0xff)"

primrec crc_ccitt :: "u16 \<Rightarrow> byte list \<Rightarrow> u16" where
  "crc_ccitt crc [] = crc"
| "crc_ccitt crc (b # bs) = crc_ccitt (crc_ccitt_byte crc b) bs"

definition crc16_table :: "u16 list" where
  "crc16_table = [
   0x0000, 0xC0C1, 0xC181, 0x0140, 0xC301, 0x03C0, 0x0280, 0xC241,
   0xC601, 0x06C0, 0x0780, 0xC741, 0x0500, 0xC5C1, 0xC481, 0x0440,
   0xCC01, 0x0CC0, 0x0D80, 0xCD41, 0x0F00, 0xCFC1, 0xCE81, 0x0E40,
   0x0A00, 0xCAC1, 0xCB81, 0x0B40, 0xC901, 0x09C0, 0x0880, 0xC841,
   0xD801, 0x18C0, 0x1980, 0xD941, 0x1B00, 0xDBC1, 0xDA81, 0x1A40,
   0x1E00, 0xDEC1, 0xDF81, 0x1F40, 0xDD01, 0x1DC0, 0x1C80, 0xDC41,
   0x1400, 0xD4C1, 0xD581, 0x1540, 0xD701, 0x17C0, 0x1680, 0xD641,
   0xD201, 0x12C0, 0x1380, 0xD341, 0x1100, 0xD1C1, 0xD081, 0x1040,
   0xF001, 0x30C0, 0x3180, 0xF141, 0x3300, 0xF3C1, 0xF281, 0x3240,
   0x3600, 0xF6C1, 0xF781, 0x3740, 0xF501, 0x35C0, 0x3480, 0xF441,
   0x3C00, 0xFCC1, 0xFD81, 0x3D40, 0xFF01, 0x3FC0, 0x3E80, 0xFE41,
   0xFA01, 0x3AC0, 0x3B80, 0xFB41, 0x3900, 0xF9C1, 0xF881, 0x3840,
   0x2800, 0xE8C1, 0xE981, 0x2940, 0xEB01, 0x2BC0, 0x2A80, 0xEA41,
   0xEE01, 0x2EC0, 0x2F80, 0xEF41, 0x2D00, 0xEDC1, 0xEC81, 0x2C40,
   0xE401, 0x24C0, 0x2580, 0xE541, 0x2700, 0xE7C1, 0xE681, 0x2640,
   0x2200, 0xE2C1, 0xE381, 0x2340, 0xE101, 0x21C0, 0x2080, 0xE041,
   0xA001, 0x60C0, 0x6180, 0xA141, 0x6300, 0xA3C1, 0xA281, 0x6240,
   0x6600, 0xA6C1, 0xA781, 0x6740, 0xA501, 0x65C0, 0x6480, 0xA441,
   0x6C00, 0xACC1, 0xAD81, 0x6D40, 0xAF01, 0x6FC0, 0x6E80, 0xAE41,
   0xAA01, 0x6AC0, 0x6B80, 0xAB41, 0x6900, 0xA9C1, 0xA881, 0x6840,
   0x7800, 0xB8C1, 0xB981, 0x7940, 0xBB01, 0x7BC0, 0x7A80, 0xBA41,
   0xBE01, 0x7EC0, 0x7F80, 0xBF41, 0x7D00, 0xBDC1, 0xBC81, 0x7C40,
   0xB401, 0x74C0, 0x7580, 0xB541, 0x7700, 0xB7C1, 0xB681, 0x7640,
   0x7200, 0xB2C1, 0xB381, 0x7340, 0xB101, 0x71C0, 0x7080, 0xB041,
   0x5000, 0x90C1, 0x9181, 0x5140, 0x9301, 0x53C0, 0x5280, 0x9241,
   0x9601, 0x56C0, 0x5780, 0x9741, 0x5500, 0x95C1, 0x9481, 0x5440,
   0x9C01, 0x5CC0, 0x5D80, 0x9D41, 0x5F00, 0x9FC1, 0x9E81, 0x5E40,
   0x5A00, 0x9AC1, 0x9B81, 0x5B40, 0x9901, 0x59C0, 0x5880, 0x9841,
   0x8801, 0x48C0, 0x4980, 0x8941, 0x4B00, 0x8BC1, 0x8A81, 0x4A40,
   0x4E00, 0x8EC1, 0x8F81, 0x4F40, 0x8D01, 0x4DC0, 0x4C80, 0x8C41,
   0x4400, 0x84C1, 0x8581, 0x4540, 0x8701, 0x47C0, 0x4680, 0x8641,
   0x8201, 0x42C0, 0x4380, 0x8341, 0x4100, 0x81C1, 0x8081, 0x4040]"

definition lib_crc16_byte :: "u16 \<Rightarrow> byte \<Rightarrow> u16" where
  "lib_crc16_byte crc data = drop_bit 8 crc XOR crc16_table ! unat ((crc XOR ucast data) AND 0xff)"

primrec lib_crc16 :: "u16 \<Rightarrow> byte list \<Rightarrow> u16" where
  "lib_crc16 crc [] = crc"
| "lib_crc16 crc (b # bs) = lib_crc16 (lib_crc16_byte crc b) bs"

definition crc_itu_t_table :: "u16 list" where
  "crc_itu_t_table = [
   0x0000, 0x1021, 0x2042, 0x3063, 0x4084, 0x50A5, 0x60C6, 0x70E7,
   0x8108, 0x9129, 0xA14A, 0xB16B, 0xC18C, 0xD1AD, 0xE1CE, 0xF1EF,
   0x1231, 0x0210, 0x3273, 0x2252, 0x52B5, 0x4294, 0x72F7, 0x62D6,
   0x9339, 0x8318, 0xB37B, 0xA35A, 0xD3BD, 0xC39C, 0xF3FF, 0xE3DE,
   0x2462, 0x3443, 0x0420, 0x1401, 0x64E6, 0x74C7, 0x44A4, 0x5485,
   0xA56A, 0xB54B, 0x8528, 0x9509, 0xE5EE, 0xF5CF, 0xC5AC, 0xD58D,
   0x3653, 0x2672, 0x1611, 0x0630, 0x76D7, 0x66F6, 0x5695, 0x46B4,
   0xB75B, 0xA77A, 0x9719, 0x8738, 0xF7DF, 0xE7FE, 0xD79D, 0xC7BC,
   0x48C4, 0x58E5, 0x6886, 0x78A7, 0x0840, 0x1861, 0x2802, 0x3823,
   0xC9CC, 0xD9ED, 0xE98E, 0xF9AF, 0x8948, 0x9969, 0xA90A, 0xB92B,
   0x5AF5, 0x4AD4, 0x7AB7, 0x6A96, 0x1A71, 0x0A50, 0x3A33, 0x2A12,
   0xDBFD, 0xCBDC, 0xFBBF, 0xEB9E, 0x9B79, 0x8B58, 0xBB3B, 0xAB1A,
   0x6CA6, 0x7C87, 0x4CE4, 0x5CC5, 0x2C22, 0x3C03, 0x0C60, 0x1C41,
   0xEDAE, 0xFD8F, 0xCDEC, 0xDDCD, 0xAD2A, 0xBD0B, 0x8D68, 0x9D49,
   0x7E97, 0x6EB6, 0x5ED5, 0x4EF4, 0x3E13, 0x2E32, 0x1E51, 0x0E70,
   0xFF9F, 0xEFBE, 0xDFDD, 0xCFFC, 0xBF1B, 0xAF3A, 0x9F59, 0x8F78,
   0x9188, 0x81A9, 0xB1CA, 0xA1EB, 0xD10C, 0xC12D, 0xF14E, 0xE16F,
   0x1080, 0x00A1, 0x30C2, 0x20E3, 0x5004, 0x4025, 0x7046, 0x6067,
   0x83B9, 0x9398, 0xA3FB, 0xB3DA, 0xC33D, 0xD31C, 0xE37F, 0xF35E,
   0x02B1, 0x1290, 0x22F3, 0x32D2, 0x4235, 0x5214, 0x6277, 0x7256,
   0xB5EA, 0xA5CB, 0x95A8, 0x8589, 0xF56E, 0xE54F, 0xD52C, 0xC50D,
   0x34E2, 0x24C3, 0x14A0, 0x0481, 0x7466, 0x6447, 0x5424, 0x4405,
   0xA7DB, 0xB7FA, 0x8799, 0x97B8, 0xE75F, 0xF77E, 0xC71D, 0xD73C,
   0x26D3, 0x36F2, 0x0691, 0x16B0, 0x6657, 0x7676, 0x4615, 0x5634,
   0xD94C, 0xC96D, 0xF90E, 0xE92F, 0x99C8, 0x89E9, 0xB98A, 0xA9AB,
   0x5844, 0x4865, 0x7806, 0x6827, 0x18C0, 0x08E1, 0x3882, 0x28A3,
   0xCB7D, 0xDB5C, 0xEB3F, 0xFB1E, 0x8BF9, 0x9BD8, 0xABBB, 0xBB9A,
   0x4A75, 0x5A54, 0x6A37, 0x7A16, 0x0AF1, 0x1AD0, 0x2AB3, 0x3A92,
   0xFD2E, 0xED0F, 0xDD6C, 0xCD4D, 0xBDAA, 0xAD8B, 0x9DE8, 0x8DC9,
   0x7C26, 0x6C07, 0x5C64, 0x4C45, 0x3CA2, 0x2C83, 0x1CE0, 0x0CC1,
   0xEF1F, 0xFF3E, 0xCF5D, 0xDF7C, 0xAF9B, 0xBFBA, 0x8FD9, 0x9FF8,
   0x6E17, 0x7E36, 0x4E55, 0x5E74, 0x2E93, 0x3EB2, 0x0ED1, 0x1EF0]"

definition crc_itu_t_byte :: "u16 \<Rightarrow> byte \<Rightarrow> u16" where
  "crc_itu_t_byte crc data = push_bit 8 crc XOR crc_itu_t_table ! unat ((drop_bit 8 crc XOR ucast data) AND 0xff)"

primrec crc_itu_t :: "u16 \<Rightarrow> byte list \<Rightarrow> u16" where
  "crc_itu_t crc [] = crc"
| "crc_itu_t crc (b # bs) = crc_itu_t (crc_itu_t_byte crc b) bs"

definition t10_dif_crc_table :: "u16 list" where
  "t10_dif_crc_table = [
   0x0000, 0x8BB7, 0x9CD9, 0x176E, 0xB205, 0x39B2, 0x2EDC, 0xA56B,
   0xEFBD, 0x640A, 0x7364, 0xF8D3, 0x5DB8, 0xD60F, 0xC161, 0x4AD6,
   0x54CD, 0xDF7A, 0xC814, 0x43A3, 0xE6C8, 0x6D7F, 0x7A11, 0xF1A6,
   0xBB70, 0x30C7, 0x27A9, 0xAC1E, 0x0975, 0x82C2, 0x95AC, 0x1E1B,
   0xA99A, 0x222D, 0x3543, 0xBEF4, 0x1B9F, 0x9028, 0x8746, 0x0CF1,
   0x4627, 0xCD90, 0xDAFE, 0x5149, 0xF422, 0x7F95, 0x68FB, 0xE34C,
   0xFD57, 0x76E0, 0x618E, 0xEA39, 0x4F52, 0xC4E5, 0xD38B, 0x583C,
   0x12EA, 0x995D, 0x8E33, 0x0584, 0xA0EF, 0x2B58, 0x3C36, 0xB781,
   0xD883, 0x5334, 0x445A, 0xCFED, 0x6A86, 0xE131, 0xF65F, 0x7DE8,
   0x373E, 0xBC89, 0xABE7, 0x2050, 0x853B, 0x0E8C, 0x19E2, 0x9255,
   0x8C4E, 0x07F9, 0x1097, 0x9B20, 0x3E4B, 0xB5FC, 0xA292, 0x2925,
   0x63F3, 0xE844, 0xFF2A, 0x749D, 0xD1F6, 0x5A41, 0x4D2F, 0xC698,
   0x7119, 0xFAAE, 0xEDC0, 0x6677, 0xC31C, 0x48AB, 0x5FC5, 0xD472,
   0x9EA4, 0x1513, 0x027D, 0x89CA, 0x2CA1, 0xA716, 0xB078, 0x3BCF,
   0x25D4, 0xAE63, 0xB90D, 0x32BA, 0x97D1, 0x1C66, 0x0B08, 0x80BF,
   0xCA69, 0x41DE, 0x56B0, 0xDD07, 0x786C, 0xF3DB, 0xE4B5, 0x6F02,
   0x3AB1, 0xB106, 0xA668, 0x2DDF, 0x88B4, 0x0303, 0x146D, 0x9FDA,
   0xD50C, 0x5EBB, 0x49D5, 0xC262, 0x6709, 0xECBE, 0xFBD0, 0x7067,
   0x6E7C, 0xE5CB, 0xF2A5, 0x7912, 0xDC79, 0x57CE, 0x40A0, 0xCB17,
   0x81C1, 0x0A76, 0x1D18, 0x96AF, 0x33C4, 0xB873, 0xAF1D, 0x24AA,
   0x932B, 0x189C, 0x0FF2, 0x8445, 0x212E, 0xAA99, 0xBDF7, 0x3640,
   0x7C96, 0xF721, 0xE04F, 0x6BF8, 0xCE93, 0x4524, 0x524A, 0xD9FD,
   0xC7E6, 0x4C51, 0x5B3F, 0xD088, 0x75E3, 0xFE54, 0xE93A, 0x628D,
   0x285B, 0xA3EC, 0xB482, 0x3F35, 0x9A5E, 0x11E9, 0x0687, 0x8D30,
   0xE232, 0x6985, 0x7EEB, 0xF55C, 0x5037, 0xDB80, 0xCCEE, 0x4759,
   0x0D8F, 0x8638, 0x9156, 0x1AE1, 0xBF8A, 0x343D, 0x2353, 0xA8E4,
   0xB6FF, 0x3D48, 0x2A26, 0xA191, 0x04FA, 0x8F4D, 0x9823, 0x1394,
   0x5942, 0xD2F5, 0xC59B, 0x4E2C, 0xEB47, 0x60F0, 0x779E, 0xFC29,
   0x4BA8, 0xC01F, 0xD771, 0x5CC6, 0xF9AD, 0x721A, 0x6574, 0xEEC3,
   0xA415, 0x2FA2, 0x38CC, 0xB37B, 0x1610, 0x9DA7, 0x8AC9, 0x017E,
   0x1F65, 0x94D2, 0x83BC, 0x080B, 0xAD60, 0x26D7, 0x31B9, 0xBA0E,
   0xF0D8, 0x7B6F, 0x6C01, 0xE7B6, 0x42DD, 0xC96A, 0xDE04, 0x55B3]"

text \<open>The body of the loop of \<open>crc_t10dif\<close>, and the function, which starts from zero.\<close>

definition t10dif_step :: "u16 \<Rightarrow> byte \<Rightarrow> u16" where
  "t10dif_step crc b = push_bit 8 crc XOR t10_dif_crc_table ! unat ((drop_bit 8 crc XOR ucast b) AND 0xff)"

primrec t10dif_loop :: "u16 \<Rightarrow> byte list \<Rightarrow> u16" where
  "t10dif_loop crc [] = crc"
| "t10dif_loop crc (b # bs) = t10dif_loop (t10dif_step crc b) bs"

definition crc_t10dif :: "byte list \<Rightarrow> u16" where
  "crc_t10dif buffer = t10dif_loop 0 buffer"

definition crc7_syndrome_table :: "byte list" where
  "crc7_syndrome_table = [
   0x00, 0x09, 0x12, 0x1B, 0x24, 0x2D, 0x36, 0x3F,
   0x48, 0x41, 0x5A, 0x53, 0x6C, 0x65, 0x7E, 0x77,
   0x19, 0x10, 0x0B, 0x02, 0x3D, 0x34, 0x2F, 0x26,
   0x51, 0x58, 0x43, 0x4A, 0x75, 0x7C, 0x67, 0x6E,
   0x32, 0x3B, 0x20, 0x29, 0x16, 0x1F, 0x04, 0x0D,
   0x7A, 0x73, 0x68, 0x61, 0x5E, 0x57, 0x4C, 0x45,
   0x2B, 0x22, 0x39, 0x30, 0x0F, 0x06, 0x1D, 0x14,
   0x63, 0x6A, 0x71, 0x78, 0x47, 0x4E, 0x55, 0x5C,
   0x64, 0x6D, 0x76, 0x7F, 0x40, 0x49, 0x52, 0x5B,
   0x2C, 0x25, 0x3E, 0x37, 0x08, 0x01, 0x1A, 0x13,
   0x7D, 0x74, 0x6F, 0x66, 0x59, 0x50, 0x4B, 0x42,
   0x35, 0x3C, 0x27, 0x2E, 0x11, 0x18, 0x03, 0x0A,
   0x56, 0x5F, 0x44, 0x4D, 0x72, 0x7B, 0x60, 0x69,
   0x1E, 0x17, 0x0C, 0x05, 0x3A, 0x33, 0x28, 0x21,
   0x4F, 0x46, 0x5D, 0x54, 0x6B, 0x62, 0x79, 0x70,
   0x07, 0x0E, 0x15, 0x1C, 0x23, 0x2A, 0x31, 0x38,
   0x41, 0x48, 0x53, 0x5A, 0x65, 0x6C, 0x77, 0x7E,
   0x09, 0x00, 0x1B, 0x12, 0x2D, 0x24, 0x3F, 0x36,
   0x58, 0x51, 0x4A, 0x43, 0x7C, 0x75, 0x6E, 0x67,
   0x10, 0x19, 0x02, 0x0B, 0x34, 0x3D, 0x26, 0x2F,
   0x73, 0x7A, 0x61, 0x68, 0x57, 0x5E, 0x45, 0x4C,
   0x3B, 0x32, 0x29, 0x20, 0x1F, 0x16, 0x0D, 0x04,
   0x6A, 0x63, 0x78, 0x71, 0x4E, 0x47, 0x5C, 0x55,
   0x22, 0x2B, 0x30, 0x39, 0x06, 0x0F, 0x14, 0x1D,
   0x25, 0x2C, 0x37, 0x3E, 0x01, 0x08, 0x13, 0x1A,
   0x6D, 0x64, 0x7F, 0x76, 0x49, 0x40, 0x5B, 0x52,
   0x3C, 0x35, 0x2E, 0x27, 0x18, 0x11, 0x0A, 0x03,
   0x74, 0x7D, 0x66, 0x6F, 0x50, 0x59, 0x42, 0x4B,
   0x17, 0x1E, 0x05, 0x0C, 0x33, 0x3A, 0x21, 0x28,
   0x5F, 0x56, 0x4D, 0x44, 0x7B, 0x72, 0x69, 0x60,
   0x0E, 0x07, 0x1C, 0x15, 0x2A, 0x23, 0x38, 0x31,
   0x46, 0x4F, 0x54, 0x5D, 0x62, 0x6B, 0x70, 0x79]"

text \<open>The index is computed in \<open>int\<close> and may leave the table; \<open>None\<close> stands for that.\<close>

definition crc7_byte :: "byte \<Rightarrow> byte \<Rightarrow> byte option" where
  "crc7_byte crc data =
     (let i = (push_bit 1 (ucast crc) XOR ucast data :: u16)
      in if unat i < 256 then Some (crc7_syndrome_table ! unat i) else None)"

primrec crc7 :: "byte \<Rightarrow> byte list \<Rightarrow> byte option" where
  "crc7 crc [] = Some crc"
| "crc7 crc (b # bs) = (case crc7_byte crc b of None \<Rightarrow> None | Some crc \<Rightarrow> crc7 crc bs)"

section \<open>Bit steps\<close>

definition down :: "u16 \<Rightarrow> u16 \<Rightarrow> u16" where
  "down poly c = (if bit c 0 then drop_bit 1 c XOR poly else drop_bit 1 c)"

definition up :: "u16 \<Rightarrow> u16 \<Rightarrow> u16" where
  "up poly c = (if bit c 15 then push_bit 1 c XOR poly else push_bit 1 c)"

lemma down_xor: "down p (x XOR y) = down p x XOR down p y"
  by (rule bit_word_eqI) (auto simp: down_def bit_xor_iff bit_drop_bit_eq)

lemma up_xor: "up p (x XOR y) = up p x XOR up p y"
  by (rule bit_word_eqI) (auto simp: up_def bit_xor_iff bit_push_bit_iff)

lemma steps_xor:
  "(down p ^^ n) (x XOR y) = (down p ^^ n) x XOR (down p ^^ n) y"
  "(up p ^^ n) (x XOR y) = (up p ^^ n) x XOR (up p ^^ n) y"
  by (induction n) (simp_all add: down_xor up_xor)

text \<open>A byte in the half that is shifted out last moves to the other half unchanged.\<close>

lemma down_high: "n \<le> 8 \<Longrightarrow> (down p ^^ n) (push_bit 8 (ucast (b :: byte))) = push_bit (8 - n) (ucast b)"
proof (induction n)
  case (Suc n)
  then have IH: "(down p ^^ n) (push_bit 8 (ucast b)) = push_bit (8 - n) (ucast b)" by simp
  have "\<not> bit (push_bit (8 - n) (ucast b) :: u16) 0"
    using Suc.prems by (simp add: bit_simps)
  then have "down p (push_bit (8 - n) (ucast b)) = drop_bit 1 (push_bit (8 - n) (ucast b) :: u16)"
    by (simp add: down_def)
  also have "\<dots> = push_bit (8 - Suc n) (ucast b)"
    using Suc.prems by (intro bit_word_eqI) (auto simp: bit_simps Suc_diff_le dest: bit_imp_le_length)
  finally show ?case by (simp add: IH)
qed simp

lemma up_low: "n \<le> 8 \<Longrightarrow> (up p ^^ n) (ucast (b :: byte)) = push_bit n (ucast b)"
proof (induction n)
  case (Suc n)
  then have IH: "(up p ^^ n) (ucast b) = push_bit n (ucast b)" by simp
  have "\<not> bit (push_bit n (ucast b) :: u16) 15"
    using Suc.prems by (auto simp: bit_simps dest: bit_imp_le_length)
  then have "up p (push_bit n (ucast b)) = push_bit 1 (push_bit n (ucast b) :: u16)"
    by (simp add: up_def)
  then show ?case by (simp add: IH push_bit_push_bit)
qed simp

text \<open>The tables are checked entry by entry.\<close>

lemma steps_num:
  "down p 0 = 0" "down p 1 = p"
  "down p (numeral n) = (if bit (numeral n :: u16) 0 then drop_bit 1 (numeral n) XOR p else drop_bit 1 (numeral n))"
  "down p (- numeral n) =
     (if bit (- numeral n :: u16) 0 then drop_bit 1 (- numeral n) XOR p else drop_bit 1 (- numeral n))"
  "up p 0 = 0" "up p 1 = 2"
  "up p (numeral n) = (if bit (numeral n :: u16) 15 then push_bit 1 (numeral n) XOR p else push_bit 1 (numeral n))"
  "up p (- numeral n) =
     (if bit (- numeral n :: u16) 15 then push_bit 1 (- numeral n) XOR p else push_bit 1 (- numeral n))"
  by (simp_all add: down_def up_def bit_1_iff)

definition eight :: "(u16 \<Rightarrow> u16) \<Rightarrow> u16 \<Rightarrow> u16" where
  "eight f c = f (f (f (f (f (f (f (f c)))))))"

lemma eight_funpow: "eight f c = (f ^^ 8) c"
  by (simp add: eight_def numeral_eq_Suc)

lemma eight_num:
  "eight f 0 = f (f (f (f (f (f (f (f 0)))))))"
  "eight f 1 = f (f (f (f (f (f (f (f 1)))))))"
  "eight f (numeral n) = f (f (f (f (f (f (f (f (numeral n))))))))"
  "eight f (- numeral n) = f (f (f (f (f (f (f (f (- numeral n))))))))"
  by (simp_all only: eight_def)

lemma crc_ccitt_table_ref: "crc_ccitt_table = map (\<lambda>i. eight (down 0x8408) (of_nat i)) [0..<256]"
  by (simp add: crc_ccitt_table_def upt_0_numeral steps_num eight_num)

lemma crc16_table_ref: "crc16_table = map (\<lambda>i. eight (down 0xA001) (of_nat i)) [0..<256]"
  by (simp add: crc16_table_def upt_0_numeral steps_num eight_num)

lemma crc_itu_t_table_ref: "crc_itu_t_table = map (\<lambda>i. eight (up 0x1021) (push_bit 8 (of_nat i))) [0..<256]"
  by (simp add: crc_itu_t_table_def upt_0_numeral steps_num eight_num)

lemma t10_dif_crc_table_ref:
  "t10_dif_crc_table = map (\<lambda>i. eight (up 0x8BB7) (push_bit 8 (of_nat i))) [0..<256]"
  by (simp add: t10_dif_crc_table_def upt_0_numeral steps_num eight_num)

section \<open>A table does the work of eight steps\<close>

locale down_crc =
  fixes poly :: u16 and table :: "u16 list" and step :: "u16 \<Rightarrow> byte \<Rightarrow> u16"
  assumes table: "table = map (\<lambda>i. eight (down poly) (of_nat i)) [0..<256]"
    and step: "step crc b = drop_bit 8 crc XOR table ! unat ((crc XOR ucast b) AND 0xff)"
begin

lemma step_bits: "step crc b = (down poly ^^ 8) (crc XOR ucast b)"
proof -
  define x where "x = crc XOR ucast b"
  have low: "unat (x AND 0xff) < 256"
    using word_and_le1 [of x "0xff"] by (simp add: word_le_nat_alt)
  have "step crc b = drop_bit 8 crc XOR (down poly ^^ 8) (x AND 0xff)"
    using low by (simp add: step table x_def eight_funpow)
  also have "drop_bit 8 crc = ucast (ucast (drop_bit 8 x) :: byte)"
    by (rule bit_word_eqI) (auto simp: x_def bit_simps dest: bit_imp_le_length)
  also have "ucast (ucast (drop_bit 8 x) :: byte) XOR (down poly ^^ 8) (x AND 0xff) = (down poly ^^ 8) x"
    using down_high [of 8 poly "ucast (drop_bit 8 x)"]
    by (subst (3) split_bytes) (simp add: steps_xor xor.commute)
  finally show ?thesis by (simp add: x_def)
qed

end

locale up_crc =
  fixes poly :: u16 and table :: "u16 list" and step :: "u16 \<Rightarrow> byte \<Rightarrow> u16"
  assumes table: "table = map (\<lambda>i. eight (up poly) (push_bit 8 (of_nat i))) [0..<256]"
    and step: "step crc b = push_bit 8 crc XOR table ! unat ((drop_bit 8 crc XOR ucast b) AND 0xff)"
begin

lemma step_bits: "step crc b = (up poly ^^ 8) (crc XOR push_bit 8 (ucast b))"
proof -
  define h where "h = drop_bit 8 crc XOR ucast b"
  have low: "unat (h AND 0xff) < 256"
    using word_and_le1 [of h "0xff"] by (simp add: word_le_nat_alt)
  have "step crc b = push_bit 8 crc XOR (up poly ^^ 8) (push_bit 8 (h AND 0xff))"
    using low by (simp add: step table h_def eight_funpow)
  also have "push_bit 8 crc = (up poly ^^ 8) (ucast (ucast crc :: byte))"
    by (simp add: up_low) (rule bit_word_eqI, auto simp: bit_simps dest: bit_imp_le_length)
  also have "(up poly ^^ 8) (ucast (ucast crc :: byte)) XOR (up poly ^^ 8) (push_bit 8 (h AND 0xff)) =
      (up poly ^^ 8) (ucast (ucast crc :: byte) XOR push_bit 8 (h AND 0xff))"
    by (simp add: steps_xor)
  also have "ucast (ucast crc :: byte) XOR push_bit 8 (h AND 0xff) = crc XOR push_bit 8 (ucast b)"
  proof -
    obtain m :: u16 where m: "m = 0xff" by simp
    have "bit m n \<longleftrightarrow> n < 8" if "n < 16" for n
      using that bit_mask_iff [where ?'a = u16, of 8 n] by (simp add: m mask_eq_exp_minus_1)
    then have "ucast (ucast crc :: byte) XOR push_bit 8 (h AND m) = crc XOR push_bit 8 (ucast b)"
      by (intro bit_word_eqI) (auto simp: h_def bit_simps)
    then show ?thesis by (simp only: m)
  qed
  finally show ?thesis .
qed

end

interpretation ccitt: down_crc "0x8408" crc_ccitt_table crc_ccitt_byte
  by unfold_locales (simp_all only: crc_ccitt_table_ref crc_ccitt_byte_def)

interpretation ansi: down_crc "0xA001" crc16_table lib_crc16_byte
  by unfold_locales (simp_all only: crc16_table_ref lib_crc16_byte_def)

interpretation itu: up_crc "0x1021" crc_itu_t_table crc_itu_t_byte
  by unfold_locales (simp_all only: crc_itu_t_table_ref crc_itu_t_byte_def)

interpretation t10: up_crc "0x8BB7" t10_dif_crc_table t10dif_step
  by unfold_locales (simp_all only: t10_dif_crc_table_ref t10dif_step_def)

section \<open>The seven-bit checksum\<close>

text \<open>The register is kept in the upper seven bits of a byte; the polynomial is 0x09.\<close>

definition up7 :: "byte \<Rightarrow> byte" where
  "up7 c = (if bit c 7 then push_bit 1 c XOR 0x12 else push_bit 1 c)"

definition crc7_ref_byte :: "byte \<Rightarrow> byte \<Rightarrow> byte" where
  "crc7_ref_byte b r = up7 (up7 (up7 (up7 (up7 (up7 (up7 (up7 (r XOR b))))))))"

lemma up7_num:
  "up7 0 = 0" "up7 1 = 2"
  "up7 (numeral n) = (if bit (numeral n :: byte) 7 then push_bit 1 (numeral n) XOR 0x12 else push_bit 1 (numeral n))"
  "up7 (- numeral n) =
     (if bit (- numeral n :: byte) 7 then push_bit 1 (- numeral n) XOR 0x12 else push_bit 1 (- numeral n))"
  by (simp_all add: up7_def bit_1_iff)

lemma crc7_ref_num:
  "crc7_ref_byte 0 0 = 0"
  "crc7_ref_byte 1 0 = up7 (up7 (up7 (up7 (up7 (up7 (up7 (up7 1)))))))"
  "crc7_ref_byte (numeral n) 0 = up7 (up7 (up7 (up7 (up7 (up7 (up7 (up7 (numeral n))))))))"
  by (simp_all only: crc7_ref_byte_def xor.left_neutral up7_num)

lemma crc7_table_ref: "crc7_syndrome_table = map (\<lambda>i. drop_bit 1 (crc7_ref_byte (of_nat i) 0)) [0..<256]"
  by (simp add: crc7_syndrome_table_def upt_0_numeral up7_num crc7_ref_num)

lemma up7_even: "\<not> bit (up7 c) 0"
  by (auto simp: up7_def bit_0 even_xor_iff)

lemma crc7_ref_even: "push_bit 1 (drop_bit 1 (crc7_ref_byte b r)) = crc7_ref_byte b r"
proof (rule bit_word_eqI)
  fix n
  assume n: "n < LENGTH(8)"
  have "\<not> bit (crc7_ref_byte b r) 0" by (simp only: crc7_ref_byte_def up7_even not_False_eq_True)
  with n show "bit (push_bit 1 (drop_bit 1 (crc7_ref_byte b r))) n = bit (crc7_ref_byte b r) n"
    unfolding bit_push_bit_iff bit_drop_bit_eq by (cases n) (auto simp: bit_simps)
qed

lemma unat_ucast_up: "unat (ucast (x :: byte) :: u16) = unat x"
  using unsigned_less [where 'a = nat, of x] by (simp add: unsigned_ucast_eq take_bit_nat_eq_self_iff)

lemma crc7_byte_ref:
  assumes "unat crc < 128"
  shows "crc7_byte crc b = Some (drop_bit 1 (crc7_ref_byte b (push_bit 1 crc)))"
proof -
  have "\<not> bit (unat crc) 7" using assms by (simp add: bit_iff_odd)
  then have top: "\<not> bit crc 7" by (simp add: bit_unsigned_iff)
  have "(push_bit 1 (ucast crc) XOR ucast b :: u16) = ucast (push_bit 1 crc XOR b)"
  proof (rule bit_word_eqI)
    fix n
    assume "n < LENGTH(16)"
    with top show "bit (push_bit 1 (ucast crc) XOR ucast b :: u16) n = bit (ucast (push_bit 1 crc XOR b) :: u16) n"
      unfolding bit_xor_iff bit_push_bit_iff bit_unsigned_iff
      by (cases "n = 8") (auto dest: bit_imp_le_length)
  qed
  moreover have "unat (ucast (push_bit 1 crc XOR b) :: u16) = unat (push_bit 1 crc XOR b)"
    by (rule unat_ucast_up)
  moreover have "unat (push_bit 1 crc XOR b) < 256"
    using unsigned_less [where 'a = nat, of "push_bit 1 crc XOR b"] by simp
  ultimately show ?thesis
    by (simp add: crc7_byte_def crc7_table_ref crc7_ref_byte_def)
qed

lemma drop_bit_1_bound: "unat (drop_bit 1 (c :: byte)) < 128"
  using unsigned_less [where 'a = nat, of c] 
  by (simp add: drop_bit_eq_div unat_div)

lemma crc7_run:
  "unat crc < 128 \<Longrightarrow> crc7 crc bs = Some (drop_bit 1 (fold crc7_ref_byte bs (push_bit 1 crc)))"
proof (induction bs arbitrary: crc)
  case Nil
  have "drop_bit 1 (push_bit 1 crc) = crc"
  proof (rule bit_word_eqI)
    fix n
    assume "n < LENGTH(8)"
    moreover have "\<not> bit (unat crc) 7" using Nil by (simp add: bit_iff_odd)
    ultimately show "bit (drop_bit 1 (push_bit 1 crc)) n = bit crc n"
      unfolding bit_push_bit_iff bit_drop_bit_eq o_def by (cases "n = 7") (auto simp: bit_simps bit_unsigned_iff)
  qed
  then show ?case by simp
next
  case (Cons b bs)
  then show ?case
    by (simp add: crc7_byte_ref drop_bit_1_bound crc7_ref_even del: One_nat_def)
qed

section \<open>Properties\<close>

text \<open>
  C40: each of the four 16-bit checksums of the kernel is, for every start value and every data, the
  bit-serial division by its polynomial: CCITT (reflected 0x1021), CRC-16 (reflected 0x8005), ITU-T V.41
  (0x1021) and T10 DIF (0x8BB7); and the first of them is the checksum the agent puts into its frames.
\<close>

theorem kernel_checksums:
  "crc_ccitt crc data = fold (\<lambda>b c. (down 0x8408 ^^ 8) (c XOR ucast b)) data crc \<and>
   lib_crc16 crc data = fold (\<lambda>b c. (down 0xA001 ^^ 8) (c XOR ucast b)) data crc \<and>
   crc_itu_t crc data = fold (\<lambda>b c. (up 0x1021 ^^ 8) (c XOR push_bit 8 (ucast b))) data crc \<and>
   crc_t10dif data = fold (\<lambda>b c. (up 0x8BB7 ^^ 8) (c XOR push_bit 8 (ucast b))) data 0 \<and>
   crc_ccitt crc data = crc16 crc data"
proof (intro conjI)
  show "crc_ccitt crc data = fold (\<lambda>b c. (down 0x8408 ^^ 8) (c XOR ucast b)) data crc"
    by (induction data arbitrary: crc) (simp_all add: ccitt.step_bits)
  show "lib_crc16 crc data = fold (\<lambda>b c. (down 0xA001 ^^ 8) (c XOR ucast b)) data crc"
    by (induction data arbitrary: crc) (simp_all add: ansi.step_bits)
  show "crc_itu_t crc data = fold (\<lambda>b c. (up 0x1021 ^^ 8) (c XOR push_bit 8 (ucast b))) data crc"
    by (induction data arbitrary: crc) (simp_all add: itu.step_bits)
  have "t10dif_loop c data = fold (\<lambda>b c. (up 0x8BB7 ^^ 8) (c XOR push_bit 8 (ucast b))) data c" for c
    by (induction data arbitrary: c) (simp_all add: t10.step_bits)
  then show "crc_t10dif data = fold (\<lambda>b c. (up 0x8BB7 ^^ 8) (c XOR push_bit 8 (ucast b))) data 0"
    by (simp add: crc_t10dif_def)
  have "down 0x8408 = crc_bit" by (rule ext) (simp add: down_def crc_bit_def)
  then have "crc_ccitt_byte c b = crc16_byte b c" for c b
    by (simp add: ccitt.step_bits crc16_byte_ref crc_ref_byte_def)
  then show "crc_ccitt crc data = crc16 crc data"
    by (induction data arbitrary: crc) simp_all
qed

text \<open>
  Started from a seven-bit value, \<open>crc7\<close> never reads outside its table, whatever the data, stays a
  seven-bit value and is the bit-serial division by the polynomial 0x09.
\<close>

lemma crc7_in_table:
  assumes "unat crc < 128"
  shows "\<exists>r. crc7 crc data = Some r \<and> unat r < 128 \<and>
    r = drop_bit 1 (fold crc7_ref_byte data (push_bit 1 crc))"
  using crc7_run [OF assms] drop_bit_1_bound by blast

lemma crc7_in_table_witness:
  "unat (0x40 :: byte) < 128 \<and> (\<exists>r. crc7 0x40 [0x61, 0xff] = Some r \<and> unat r < 128)"
  using crc7_in_table [of "0x40" "[0x61, 0xff]"] by auto

end
