(* ===== verification/Kfifo.thy ===== *)
theory Kfifo
  imports Prelude
begin

text \<open>
  The byte queue of the kernel (kernel/kfifo.c, include/linux/kfifo.h in src/os/linux-2.6.30) with the
  helpers its allocation uses (log2.h, fls.h).  The queue is a ring whose indices run through all 32-bit
  values and wrap; its size is a power of two.  Copies, locks and allocation that go wrong are errors of
  the model: a copy outside a block, a lock that is already held, a failed \<open>BUG_ON\<close>.  Each of
  \<open>__kfifo_put\<close> and \<open>__kfifo_get\<close> is cut at its memory barriers into the stages that a concurrent writer and
  reader interleave.
\<close>

section \<open>Powers of two\<close>

definition is_power_of_2 :: "u32 \<Rightarrow> bool" where
  "is_power_of_2 n \<longleftrightarrow> n \<noteq> 0 \<and> n AND (n - 1) = 0"

definition fls :: "u32 \<Rightarrow> nat" where
  "fls x =
     (let r = 32 in
      if x = 0 then 0
      else
        let (x, r) = (if x AND 0xffff0000 = 0 then (push_bit 16 x, r - 16) else (x, r));
            (x, r) = (if x AND 0xff000000 = 0 then (push_bit 8 x, r - 8) else (x, r));
            (x, r) = (if x AND 0xf0000000 = 0 then (push_bit 4 x, r - 4) else (x, r));
            (x, r) = (if x AND 0xc0000000 = 0 then (push_bit 2 x, r - 2) else (x, r));
            (x, r) = (if x AND 0x80000000 = 0 then (push_bit 1 x, r - 1) else (x, r))
        in r)"

text \<open>\<open>unsigned long\<close> has 32 bits on the target, so \<open>fls_long\<close> is \<open>fls\<close>.\<close>

definition fls_long :: "u32 \<Rightarrow> nat" where
  "fls_long l = fls l"

definition roundup_pow_of_two :: "u32 \<Rightarrow> u32" where
  "roundup_pow_of_two n = push_bit (fls_long (n - 1)) 1"

section \<open>The queue\<close>

datatype kerror = ENOMEM | BUG | OutOfBounds | Deadlock

text \<open>
  A queue with the block its \<open>buffer\<close> points to (its number and its bytes) and the state of the lock its
  \<open>lock\<close> points to.
\<close>

record kfifo =
  block :: nat
  buffer :: "byte list"
  fsize :: u32
  fin :: u32
  fout :: u32
  locked :: bool

text \<open>
  The allocator: the answers it will give and the blocks in use.  Blocks are numbered in the order they
  are handed out.
\<close>

record kheap =
  grants :: "bool list"
  live :: "nat list"
  fresh :: nat

definition kmalloc :: "kheap \<Rightarrow> nat option \<times> kheap" where
  "kmalloc h =
     (case grants h of
        True # gs \<Rightarrow> (Some (fresh h), h\<lparr>grants := gs, live := fresh h # live h, fresh := Suc (fresh h)\<rparr>)
      | False # gs \<Rightarrow> (None, h\<lparr>grants := gs\<rparr>)
      | [] \<Rightarrow> (None, h))"

definition kfree :: "nat \<Rightarrow> kheap \<Rightarrow> kheap" where
  "kfree p h = h\<lparr>live := remove1 p (live h)\<rparr>"

text \<open>The result is the number of the block of the \<open>struct kfifo\<close> with its content.\<close>

definition kfifo_init :: "nat \<times> byte list \<Rightarrow> u32 \<Rightarrow> bool \<Rightarrow> kheap \<Rightarrow> (kerror + nat \<times> kfifo) \<times> kheap" where
  "kfifo_init buf sz lock h =
     (if \<not> is_power_of_2 sz then (Inl BUG, h)
      else case kmalloc h of
        (None, h) \<Rightarrow> (Inl ENOMEM, h)
      | (Some p, h) \<Rightarrow>
          (Inr (p, \<lparr>block = fst buf, buffer = snd buf, fsize = sz, fin = 0, fout = 0, locked = lock\<rparr>), h))"

text \<open>\<open>junk\<close> is what the allocated memory holds.\<close>

definition kfifo_alloc :: "(nat \<Rightarrow> byte) \<Rightarrow> u32 \<Rightarrow> bool \<Rightarrow> kheap \<Rightarrow> (kerror + nat \<times> kfifo) \<times> kheap" where
  "kfifo_alloc junk sz lock h =
     (if sz AND (sz - 1) \<noteq> 0 \<and> sz > 0x80000000 then (Inl BUG, h)
      else
        let sz = (if sz AND (sz - 1) \<noteq> 0 then roundup_pow_of_two sz else sz)
        in case kmalloc h of
          (None, h) \<Rightarrow> (Inl ENOMEM, h)
        | (Some b, h) \<Rightarrow>
            (case kfifo_init (b, map junk [0..<unat sz]) sz lock h of
               (Inl ENOMEM, h) \<Rightarrow> (Inl ENOMEM, kfree b h)
             | r \<Rightarrow> r))"

definition kfifo_free :: "nat \<times> kfifo \<Rightarrow> kheap \<Rightarrow> kheap" where
  "kfifo_free pf h = kfree (fst pf) (kfree (block (snd pf)) h)"

definition kmemcpy :: "byte list \<Rightarrow> nat \<Rightarrow> byte list \<Rightarrow> nat \<Rightarrow> nat \<Rightarrow> byte list option" where
  "kmemcpy dst d src s n =
     (if d + n \<le> length dst \<and> s + n \<le> length src
      then Some (take d dst @ take n (drop s src) @ drop (d + n) dst) else None)"

subsection \<open>The stages of a put\<close>

definition mask_of :: "kfifo \<Rightarrow> u32 \<Rightarrow> u32" where
  "mask_of f i = i AND (fsize f - 1)"

definition put_len :: "kfifo \<Rightarrow> u32 \<Rightarrow> u32" where
  "put_len f len = min len (fsize f - fin f + fout f)"

definition put_l :: "kfifo \<Rightarrow> u32 \<Rightarrow> u32" where
  "put_l f len = min len (fsize f - mask_of f (fin f))"

definition put_first :: "kfifo \<Rightarrow> byte list \<Rightarrow> u32 \<Rightarrow> kfifo option" where
  "put_first f src len =
     (case kmemcpy (buffer f) (unat (mask_of f (fin f))) src 0 (unat (put_l f len)) of
        None \<Rightarrow> None | Some b \<Rightarrow> Some (f\<lparr>buffer := b\<rparr>))"

definition put_rest :: "kfifo \<Rightarrow> byte list \<Rightarrow> u32 \<Rightarrow> kfifo option" where
  "put_rest f src len =
     (case kmemcpy (buffer f) 0 src (unat (put_l f len)) (unat (len - put_l f len)) of
        None \<Rightarrow> None | Some b \<Rightarrow> Some (f\<lparr>buffer := b\<rparr>))"

definition put_done :: "kfifo \<Rightarrow> u32 \<Rightarrow> kfifo" where
  "put_done f len = f\<lparr>fin := fin f + len\<rparr>"

definition raw_kfifo_put :: "kfifo \<Rightarrow> byte list \<Rightarrow> u32 \<Rightarrow> kerror + u32 \<times> kfifo" where
  "raw_kfifo_put f src len =
     (let len = put_len f len in
      case put_first f src len of
        None \<Rightarrow> Inl OutOfBounds
      | Some f \<Rightarrow>
          (case put_rest f src len of
             None \<Rightarrow> Inl OutOfBounds
           | Some f \<Rightarrow> Inr (len, put_done f len)))"

subsection \<open>The stages of a get\<close>

definition get_len :: "kfifo \<Rightarrow> u32 \<Rightarrow> u32" where
  "get_len f len = min len (fin f - fout f)"

definition get_l :: "kfifo \<Rightarrow> u32 \<Rightarrow> u32" where
  "get_l f len = min len (fsize f - mask_of f (fout f))"

definition get_first :: "kfifo \<Rightarrow> byte list \<Rightarrow> u32 \<Rightarrow> byte list option" where
  "get_first f dst len = kmemcpy dst 0 (buffer f) (unat (mask_of f (fout f))) (unat (get_l f len))"

definition get_rest :: "kfifo \<Rightarrow> byte list \<Rightarrow> u32 \<Rightarrow> byte list option" where
  "get_rest f dst len = kmemcpy dst (unat (get_l f len)) (buffer f) 0 (unat (len - get_l f len))"

definition get_done :: "kfifo \<Rightarrow> u32 \<Rightarrow> kfifo" where
  "get_done f len = f\<lparr>fout := fout f + len\<rparr>"

definition raw_kfifo_get :: "kfifo \<Rightarrow> byte list \<Rightarrow> u32 \<Rightarrow> kerror + (u32 \<times> byte list) \<times> kfifo" where
  "raw_kfifo_get f dst len =
     (let len = get_len f len in
      case get_first f dst len of
        None \<Rightarrow> Inl OutOfBounds
      | Some dst \<Rightarrow>
          (case get_rest f dst len of
             None \<Rightarrow> Inl OutOfBounds
           | Some dst \<Rightarrow> Inr ((len, dst), get_done f len)))"

subsection \<open>The locked operations\<close>

definition raw_kfifo_reset :: "kfifo \<Rightarrow> kfifo" where
  "raw_kfifo_reset f = f\<lparr>fin := 0, fout := 0\<rparr>"

definition raw_kfifo_len :: "kfifo \<Rightarrow> u32" where
  "raw_kfifo_len f = fin f - fout f"

definition spin_lock_irqsave :: "kfifo \<Rightarrow> kerror + kfifo" where
  "spin_lock_irqsave f = (if locked f then Inl Deadlock else Inr (f\<lparr>locked := True\<rparr>))"

definition spin_unlock_irqrestore :: "kfifo \<Rightarrow> kfifo" where
  "spin_unlock_irqrestore f = f\<lparr>locked := False\<rparr>"

definition kfifo_reset :: "kfifo \<Rightarrow> kerror + kfifo" where
  "kfifo_reset f =
     (case spin_lock_irqsave f of
        Inl e \<Rightarrow> Inl e
      | Inr f \<Rightarrow> Inr (spin_unlock_irqrestore (raw_kfifo_reset f)))"

definition kfifo_put :: "kfifo \<Rightarrow> byte list \<Rightarrow> u32 \<Rightarrow> kerror + u32 \<times> kfifo" where
  "kfifo_put f src len =
     (case spin_lock_irqsave f of
        Inl e \<Rightarrow> Inl e
      | Inr f \<Rightarrow>
          (case raw_kfifo_put f src len of
             Inl e \<Rightarrow> Inl e
           | Inr (n, f) \<Rightarrow> Inr (n, spin_unlock_irqrestore f)))"

definition kfifo_get :: "kfifo \<Rightarrow> byte list \<Rightarrow> u32 \<Rightarrow> kerror + (u32 \<times> byte list) \<times> kfifo" where
  "kfifo_get f dst len =
     (case spin_lock_irqsave f of
        Inl e \<Rightarrow> Inl e
      | Inr f \<Rightarrow>
          (case raw_kfifo_get f dst len of
             Inl e \<Rightarrow> Inl e
           | Inr (n, f) \<Rightarrow>
               Inr (n, spin_unlock_irqrestore (if fin f = fout f then f\<lparr>fin := 0, fout := 0\<rparr> else f))))"

definition kfifo_len :: "kfifo \<Rightarrow> kerror + u32 \<times> kfifo" where
  "kfifo_len f =
     (case spin_lock_irqsave f of
        Inl e \<Rightarrow> Inl e
      | Inr f \<Rightarrow> Inr (raw_kfifo_len f, spin_unlock_irqrestore f))"

section \<open>Powers of two, proved\<close>

lemma and_not_mask_zero: "(x :: u32) AND NOT (mask n) = 0 \<longleftrightarrow> unat x < 2 ^ n"
proof -
  have "x AND NOT (mask n) = 0 \<longleftrightarrow> take_bit n x = x"
    by (auto simp: take_bit_eq_mask bit_eq_iff bit_and_iff bit_not_iff bit_mask_iff dest: bit_imp_le_length)
  also have "\<dots> \<longleftrightarrow> take_bit n (unat x) = unat x"
    by (metis unsigned_take_bit_eq unsigned_word_eqI)
  also have "\<dots> \<longleftrightarrow> unat x < 2 ^ n" by (simp add: take_bit_nat_eq_self_iff)
  finally show ?thesis .
qed

lemma top_masks:
  "(x :: u32) AND 0xffff0000 = 0 \<longleftrightarrow> unat x < 2 ^ 16"
  "x AND 0xff000000 = 0 \<longleftrightarrow> unat x < 2 ^ 24"
  "x AND 0xf0000000 = 0 \<longleftrightarrow> unat x < 2 ^ 28"
  "x AND 0xc0000000 = 0 \<longleftrightarrow> unat x < 2 ^ 30"
  "x AND 0x80000000 = 0 \<longleftrightarrow> unat x < 2 ^ 31"
proof -
  have m: "(0xffff0000 :: u32) = NOT (mask 16)" "(0xff000000 :: u32) = NOT (mask 24)"
    "(0xf0000000 :: u32) = NOT (mask 28)" "(0xc0000000 :: u32) = NOT (mask 30)" "(0x80000000 :: u32) = NOT (mask 31)"
    by (simp_all add: mask_eq_exp_minus_1)
  show "x AND 0xffff0000 = 0 \<longleftrightarrow> unat x < 2 ^ 16" "x AND 0xff000000 = 0 \<longleftrightarrow> unat x < 2 ^ 24"
    "x AND 0xf0000000 = 0 \<longleftrightarrow> unat x < 2 ^ 28" "x AND 0xc0000000 = 0 \<longleftrightarrow> unat x < 2 ^ 30"
    "x AND 0x80000000 = 0 \<longleftrightarrow> unat x < 2 ^ 31"
    by (simp_all only: m and_not_mask_zero)
qed

text \<open>One halving of the search: \<open>x\<close> is the argument shifted up by \<open>32 - r\<close>, and its top \<open>2 s\<close> bits are not all zero.\<close>

definition shifted :: "u32 \<Rightarrow> nat \<Rightarrow> u32 \<times> nat \<Rightarrow> bool" where
  "shifted x0 t xr \<longleftrightarrow> snd xr \<le> 32 \<and> t \<le> snd xr \<and> unat (fst xr) = unat x0 * 2 ^ (32 - snd xr) \<and> 2 ^ (32 - t) \<le> unat (fst xr)"

lemma shifted_step:
  assumes "shifted x0 (2 * s) (x, r)" "s \<le> 16" "0 < s" "b \<longleftrightarrow> unat x < 2 ^ (32 - s)"
  shows "shifted x0 s (if b then (push_bit s x, r - s) else (x, r))"
proof (cases b)
  case True
  with assms have lt: "unat x < 2 ^ (32 - s)" by simp
  then have "unat x * 2 ^ s < 2 ^ (32 - s) * 2 ^ s" by simp
  also have "\<dots> = 2 ^ 32" using assms(2) by (simp flip: power_add)
  finally have u: "unat (push_bit s x) = unat x * 2 ^ s"
    using assms(2) by (simp add: unsigned_push_bit_eq) (simp add: push_bit_eq_mult take_bit_nat_eq_self_iff)
  have "2 ^ (32 - 2 * s) * 2 ^ s \<le> unat x * 2 ^ s" using assms(1) by (simp add: shifted_def)
  moreover have "(2 :: nat) ^ (32 - 2 * s) * 2 ^ s = 2 ^ (32 - s)"
    using assms(2) by (simp flip: power_add)
  moreover have "(2 :: nat) ^ (32 - (r - s)) = 2 ^ (32 - r) * 2 ^ s"
    using assms(1) by (simp add: shifted_def flip: power_add)
  moreover have "r \<le> 32" "2 * s \<le> r" using assms(1) by (simp_all add: shifted_def)
  then have "r - s \<le> 32" "s \<le> r - s" by linarith+
  ultimately show ?thesis
    using True assms(1) u by (auto simp: shifted_def)
next
  case False
  with assms show ?thesis by (simp add: shifted_def)
qed

lemma fls_shifted: "x \<noteq> 0 \<Longrightarrow> \<exists>y. shifted x 1 (y, fls x)"
proof -
  assume "x \<noteq> 0"
  then have s0: "shifted x (2 * 16) (x, 32)"
    by (simp add: shifted_def word_neq_0_conv word_less_nat_alt Suc_le_eq)
  obtain x1 and r1 :: nat where 1: "(if x AND 0xffff0000 = 0 then (push_bit 16 x, 32 - 16) else (x, 32)) = (x1, r1)"
    by (metis surj_pair)
  have s1: "shifted x (2 * 8) (x1, r1)"
    unfolding 1 [symmetric] using shifted_step [OF s0, of "x AND 0xffff0000 = 0"] by (simp add: top_masks)
  obtain x2 r2 where 2: "(if x1 AND 0xff000000 = 0 then (push_bit 8 x1, r1 - 8) else (x1, r1)) = (x2, r2)"
    by (metis surj_pair)
  have s2: "shifted x (2 * 4) (x2, r2)"
    unfolding 2 [symmetric] using shifted_step [OF s1, of "x1 AND 0xff000000 = 0"] by (simp add: top_masks)
  obtain x3 r3 where 3: "(if x2 AND 0xf0000000 = 0 then (push_bit 4 x2, r2 - 4) else (x2, r2)) = (x3, r3)"
    by (metis surj_pair)
  have s3: "shifted x (2 * 2) (x3, r3)"
    unfolding 3 [symmetric] using shifted_step [OF s2, of "x2 AND 0xf0000000 = 0"] by (simp add: top_masks)
  obtain x4 r4 where 4: "(if x3 AND 0xc0000000 = 0 then (push_bit 2 x3, r3 - 2) else (x3, r3)) = (x4, r4)"
    by (metis surj_pair)
  have s4: "shifted x (2 * 1) (x4, r4)"
    unfolding 4 [symmetric] using shifted_step [OF s3, of "x3 AND 0xc0000000 = 0"] by (simp add: top_masks)
  obtain x5 r5 where 5: "(if x4 AND 0x80000000 = 0 then (push_bit 1 x4, r4 - 1) else (x4, r4)) = (x5, r5)"
    by (metis surj_pair)
  have s5: "shifted x 1 (x5, r5)"
    unfolding 5 [symmetric] using shifted_step [OF s4, of "x4 AND 0x80000000 = 0"] by (simp add: top_masks)
  have "fls x = r5"
    unfolding fls_def Let_def using \<open>x \<noteq> 0\<close> by (simp only: 1 2 3 4 5 prod.case if_False)
  with s5 show ?thesis by blast
qed

text \<open>\<open>fls\<close> is the position, counted from one, of the highest bit set.\<close>

lemma fls_bounds:
  assumes "x \<noteq> 0"
  shows "0 < fls x" "fls x \<le> 32" "2 ^ (fls x - 1) \<le> unat x" "unat x < 2 ^ fls x"
proof -
  from fls_shifted [OF assms] obtain y :: u32 where y: "1 \<le> fls x" "fls x \<le> 32"
    "unat y = unat x * 2 ^ (32 - fls x)" "2 ^ 31 \<le> unat y"
    by (auto simp: shifted_def)
  show "0 < fls x" "fls x \<le> 32" using y by simp_all
  have "unat y < 2 ^ 32" using unsigned_less [where 'a = nat, of y] by simp
  also have "(2 :: nat) ^ 32 = 2 ^ fls x * 2 ^ (32 - fls x)" using y by (simp flip: power_add)
  finally show "unat x < 2 ^ fls x" using y by simp
  have "(2 :: nat) ^ 31 = 2 ^ (fls x - 1) * 2 ^ (32 - fls x)" using y by (simp flip: power_add)
  with y have "2 ^ (fls x - 1) * 2 ^ (32 - fls x) \<le> unat x * 2 ^ (32 - fls x)" by linarith
  then show "2 ^ (fls x - 1) \<le> unat x" by simp
qed

lemma high_bit: "2 ^ m \<le> unat (w :: u32) \<Longrightarrow> unat w < 2 ^ Suc m \<Longrightarrow> bit w m"
proof -
  assume w: "2 ^ m \<le> unat w" "unat w < 2 ^ Suc m"
  then have "unat w div 2 ^ m = 1" by (intro div_nat_eqI) simp_all
  then have "bit (unat w) m" by (simp add: bit_iff_odd)
  then show "bit w m" by (simp add: bit_unsigned_iff)
qed

lemma unat_exp: "k < 32 \<Longrightarrow> unat (2 ^ k :: u32) = 2 ^ k"
proof -
  assume "k < 32"
  then have "unat (of_nat (2 ^ k) :: u32) = 2 ^ k"
    by (simp only: unsigned_of_nat) (simp add: take_bit_nat_eq_self_iff)
  then show "unat (2 ^ k :: u32) = 2 ^ k" by simp
qed

lemma is_power_of_2_iff: "is_power_of_2 n \<longleftrightarrow> (\<exists>k < 32. unat n = 2 ^ k)"
proof
  assume p: "is_power_of_2 n"
  define m where "m = fls n - 1"
  have n: "n \<noteq> 0" "n AND (n - 1) = 0" using p by (simp_all add: is_power_of_2_def)
  have m: "m < 32" "2 ^ m \<le> unat n" "unat n < 2 ^ Suc m"
    using fls_bounds [OF n(1)] by (simp_all add: m_def)
  have "unat n = 2 ^ m"
  proof (rule ccontr)
    assume "unat n \<noteq> 2 ^ m"
    moreover have "unat (n - 1) = unat n - 1"
      using n(1) by (simp add: unat_minus_one)
    ultimately have "bit n m" "bit (n - 1) m"
      using m by (auto intro!: high_bit)
    then have "bit (n AND (n - 1)) m" by (simp add: bit_and_iff)
    with n(2) show False by simp
  qed
  with m show "\<exists>k < 32. unat n = 2 ^ k" by blast
next
  assume "\<exists>k < 32. unat n = 2 ^ k"
  then obtain k where k: "k < 32" "unat n = 2 ^ k" by blast
  then have e: "n = 2 ^ k" by (metis unat_exp word_unat_eq_iff)
  have "2 ^ k AND (mask k :: u32) = 0"
    by (rule bit_word_eqI) (auto simp: bit_simps)
  with k e show "is_power_of_2 n"
    by (auto simp: is_power_of_2_def mask_eq_exp_minus_1)
qed

text \<open>Rounding up gives the least power of two that is not below the argument.\<close>

lemma roundup_pow_of_two_least:
  assumes "1 < unat n" "unat n \<le> 2 ^ 31"
  shows "is_power_of_2 (roundup_pow_of_two n)" "unat n \<le> unat (roundup_pow_of_two n)"
    "unat (roundup_pow_of_two n) < 2 * unat n"
proof -
  define e where "e = fls (n - 1)"
  have n1: "unat (n - 1) = unat n - 1"
    using assms(1) by (intro unat_minus_one) auto
  then have "n - 1 \<noteq> 0" using assms(1) by auto
  from fls_bounds [OF this] have e: "0 < e" "2 ^ (e - 1) < unat n" "unat n \<le> 2 ^ e"
    using n1 assms(1) by (auto simp: e_def)
  have "(2 :: nat) ^ (e - 1) < 2 ^ 31" using e assms(2) by linarith
  then have "e - 1 < 31" by (rule power_less_imp_less_exp [rotated]) simp
  then have "e < 32" using e by simp
  then have r: "unat (roundup_pow_of_two n) = 2 ^ e"
    by (simp add: roundup_pow_of_two_def fls_long_def push_bit_of_1 unat_exp flip: e_def)
  show "is_power_of_2 (roundup_pow_of_two n)" using \<open>e < 32\<close> r by (auto simp: is_power_of_2_iff)
  show "unat n \<le> unat (roundup_pow_of_two n)" using r e by simp
  have "2 ^ e = 2 * (2 :: nat) ^ (e - 1)" using e(1) by (cases e) simp_all
  then show "unat (roundup_pow_of_two n) < 2 * unat n" using r e by simp
qed

section \<open>The ring\<close>

abbreviation ring_size :: "kfifo \<Rightarrow> nat" where
  "ring_size f \<equiv> unat (fsize f)"

definition used :: "kfifo \<Rightarrow> nat" where
  "used f = unat (fin f - fout f)"

definition slot :: "kfifo \<Rightarrow> u32 \<Rightarrow> byte" where
  "slot f i = buffer f ! unat (mask_of f i)"

text \<open>The abstraction: the queued bytes, the oldest first.\<close>

definition contents :: "kfifo \<Rightarrow> byte list" where
  "contents f = map (\<lambda>i. slot f (fout f + of_nat i)) [0..<used f]"

definition fifo_ok :: "kfifo \<Rightarrow> bool" where
  "fifo_ok f \<longleftrightarrow> is_power_of_2 (fsize f) \<and> length (buffer f) = ring_size f \<and> used f \<le> ring_size f"

lemma length_contents [simp]: "length (contents f) = used f"
  by (simp add: contents_def)

lemma mask_of_mod:
  assumes "fifo_ok f"
  shows "unat (mask_of f i) = unat i mod ring_size f"
proof -
  obtain k where k: "k < 32" "ring_size f = 2 ^ k"
    using assms by (auto simp: fifo_ok_def is_power_of_2_iff)
  then have "fsize f = 2 ^ k" by (metis unat_exp word_unat_eq_iff)
  then have "mask_of f i = take_bit k i"
    by (simp add: mask_of_def take_bit_eq_mask mask_eq_exp_minus_1)
  then have "unat (mask_of f i) = take_bit k (unat i)" by (simp only: unsigned_take_bit_eq)
  then show ?thesis by (simp only: k take_bit_eq_mod)
qed

lemma ring_size_dvd: "fifo_ok f \<Longrightarrow> ring_size f dvd 2 ^ 32"
  using le_imp_power_dvd [of _ 32 "2 :: nat"] by (force simp: fifo_ok_def is_power_of_2_iff)

lemma ring_size_pos: "fifo_ok f \<Longrightarrow> 0 < ring_size f"
  by (auto simp: fifo_ok_def is_power_of_2_iff)

lemma ring_size_bound: "fifo_ok f \<Longrightarrow> ring_size f \<le> 2 ^ 31"
proof -
  assume "fifo_ok f"
  then obtain k where k: "k < 32" "ring_size f = 2 ^ k"
    by (auto simp: fifo_ok_def is_power_of_2_iff)
  then have "(2 :: nat) ^ k \<le> 2 ^ 31" by (intro power_increasing) simp_all
  with k show ?thesis by simp
qed

lemma used_le: "fifo_ok f \<Longrightarrow> used f \<le> ring_size f"
  by (simp add: fifo_ok_def)

lemma mask_of_less: "fifo_ok f \<Longrightarrow> unat (mask_of f i) < ring_size f"
  by (simp add: mask_of_mod ring_size_pos)

lemma mask_of_add:
  assumes "fifo_ok f"
  shows "unat (mask_of f (i + of_nat j)) = (unat (mask_of f i) + j) mod ring_size f"
proof -
  have "unat (i + of_nat j) = (unat i + j) mod 2 ^ 32"
    by (simp add: unat_word_ariths unsigned_of_nat take_bit_eq_mod mod_simps)
  then have "unat (mask_of f (i + of_nat j)) = (unat i + j) mod 2 ^ 32 mod ring_size f"
    using assms by (simp add: mask_of_mod)
  also have "\<dots> = (unat i + j) mod ring_size f"
    using ring_size_dvd [OF assms] by (rule mod_mod_cancel)
  finally show ?thesis using assms by (simp add: mask_of_mod mod_simps)
qed

text \<open>For an offset below the size, the position wraps at most once.\<close>

lemma mask_of_wrap:
  assumes "fifo_ok f" "j < ring_size f"
  shows "unat (mask_of f (i + of_nat j)) =
    (if unat (mask_of f i) + j < ring_size f then unat (mask_of f i) + j else unat (mask_of f i) + j - ring_size f)"
  using mask_of_less [OF assms(1), of i] assms(2) le_mod_geq [of "ring_size f" "unat (mask_of f i) + j"]
  by (auto simp: mask_of_add [OF assms(1)])

lemma unat_room: "fifo_ok f \<Longrightarrow> unat (fsize f - mask_of f i) = ring_size f - unat (mask_of f i)"
  using mask_of_less [of f i] by (simp add: unat_sub word_le_nat_alt)

lemma unat_min: "unat (min a b) = min (unat a) (unat (b :: u32))"
  by (simp add: min_def word_le_nat_alt)

lemma put_l_nat: "fifo_ok f \<Longrightarrow> unat (put_l f len) = min (unat len) (ring_size f - unat (mask_of f (fin f)))"
  by (simp add: put_l_def unat_min unat_room)

lemma get_l_nat: "fifo_ok f \<Longrightarrow> unat (get_l f len) = min (unat len) (ring_size f - unat (mask_of f (fout f)))"
  by (simp add: get_l_def unat_min unat_room)

lemma put_len_nat:
  assumes "fifo_ok f"
  shows "unat (put_len f len) = min (unat len) (ring_size f - used f)"
proof -
  have "fsize f - fin f + fout f = fsize f - (fin f - fout f)" by simp
  moreover have "fin f - fout f \<le> fsize f"
    using assms by (simp add: fifo_ok_def used_def word_le_nat_alt)
  ultimately have "unat (fsize f - fin f + fout f) = ring_size f - used f"
    by (simp only: unat_sub used_def)
  then show ?thesis by (simp add: put_len_def unat_min)
qed

lemma get_len_nat: "unat (get_len f len) = min (unat len) (used f)"
  by (simp add: get_len_def unat_min used_def)

subsection \<open>The stages of a put\<close>

text \<open>Writing changes nothing but the buffer.\<close>

definition same_but_buffer :: "kfifo \<Rightarrow> kfifo \<Rightarrow> bool" where
  "same_but_buffer f g \<longleftrightarrow> fin g = fin f \<and> fout g = fout f \<and> fsize g = fsize f \<and> locked g = locked f \<and>
     block g = block f \<and> length (buffer g) = length (buffer f)"

lemma same_but_buffer_simps:
  assumes "same_but_buffer f g"
  shows "fin g = fin f" "fout g = fout f" "fsize g = fsize f" "locked g = locked f" "block g = block f"
    "length (buffer g) = length (buffer f)" "mask_of g i = mask_of f i" "used g = used f"
    "put_l g len = put_l f len" "fifo_ok g = fifo_ok f"
  using assms by (simp_all add: same_but_buffer_def mask_of_def used_def put_l_def fifo_ok_def)

lemma same_but_buffer_trans: "same_but_buffer f g \<Longrightarrow> same_but_buffer g h \<Longrightarrow> same_but_buffer f h"
  by (simp add: same_but_buffer_def)

lemma kmemcpy_ok: "d + n \<le> length dst \<Longrightarrow> s + n \<le> length src \<Longrightarrow> \<exists>b. kmemcpy dst d src s n = Some b"
  by (simp add: kmemcpy_def)

lemma kmemcpy_nth:
  assumes "kmemcpy dst d src s n = Some b" "p < length dst"
  shows "b ! p = (if d \<le> p \<and> p < d + n then src ! (s + (p - d)) else dst ! p)" "length b = length dst"
proof -
  have b: "b = take d dst @ take n (drop s src) @ drop (d + n) dst" and l: "d + n \<le> length dst" "s + n \<le> length src"
    using assms(1) by (auto simp: kmemcpy_def split: if_splits)
  show "length b = length dst" using b l by simp
  show "b ! p = (if d \<le> p \<and> p < d + n then src ! (s + (p - d)) else dst ! p)"
  proof -
    have t: "length (take d dst) = d" "length (take n (drop s src)) = n" using l by simp_all
    show ?thesis
      unfolding b nth_append t using l assms(2) by auto
  qed
qed

lemma put_first_slots:
  assumes ok: "fifo_ok f" and src: "unat len \<le> length src"
  obtains g where "put_first f src len = Some g" "same_but_buffer f g"
    "\<And>i. i < ring_size f \<Longrightarrow>
       slot g (fin f + of_nat i) = (if i < unat (put_l f len) then src ! i else slot f (fin f + of_nat i))"
proof -
  define m where "m = unat (mask_of f (fin f))"
  define l where "l = unat (put_l f len)"
  have m: "m < ring_size f" using ok by (simp add: m_def mask_of_less)
  have l: "l = min (unat len) (ring_size f - m)" using ok by (simp add: l_def m_def put_l_nat)
  have lb: "length (buffer f) = ring_size f" using ok by (simp add: fifo_ok_def)
  have "m + l \<le> ring_size f" "l \<le> length src" using m l src by auto
  then obtain b where b: "kmemcpy (buffer f) m src 0 l = Some b"
    using kmemcpy_ok [of m l "buffer f" 0 src] lb by auto
  define g where "g = f\<lparr>buffer := b\<rparr>"
  have g: "put_first f src len = Some g"
    using b by (simp add: put_first_def g_def m_def l_def)
  have s: "same_but_buffer f g"
    using kmemcpy_nth(2) [OF b] m lb by (simp add: same_but_buffer_def g_def)
  have "slot g (fin f + of_nat i) = (if i < l then src ! i else slot f (fin f + of_nat i))" if i: "i < ring_size f" for i
  proof -
    define p where "p = unat (mask_of f (fin f + of_nat i))"
    have p: "p = (if m + i < ring_size f then m + i else m + i - ring_size f)"
      using mask_of_wrap [OF ok i, of "fin f"] by (simp add: p_def m_def)
    have "p < length (buffer f)" using lb ok by (simp add: p_def mask_of_less)
    from kmemcpy_nth(1) [OF b this] have "b ! p = (if i < l then src ! i else buffer f ! p)"
      using p m l i by (auto split: if_splits)
    then show ?thesis by (simp add: slot_def g_def p_def mask_of_def)
  qed
  with that g s show thesis by (simp add: l_def)
qed

lemma put_rest_slots:
  assumes ok: "fifo_ok f" and src: "unat len \<le> length src" and fits: "unat len \<le> ring_size f"
  obtains g where "put_rest f src len = Some g" "same_but_buffer f g"
    "\<And>i. i < ring_size f \<Longrightarrow> slot g (fin f + of_nat i) =
       (if unat (put_l f len) \<le> i \<and> i < unat len then src ! i else slot f (fin f + of_nat i))"
proof -
  define m where "m = unat (mask_of f (fin f))"
  define l where "l = unat (put_l f len)"
  have m: "m < ring_size f" using ok by (simp add: m_def mask_of_less)
  have l: "l = min (unat len) (ring_size f - m)" using ok by (simp add: l_def m_def put_l_nat)
  have lb: "length (buffer f) = ring_size f" using ok by (simp add: fifo_ok_def)
  have n: "unat (len - put_l f len) = unat len - l"
    by (simp add: l_def unat_sub put_l_def)
  have "unat len - l \<le> ring_size f" "l + (unat len - l) \<le> length src" using l src fits by linarith+
  then obtain b where b: "kmemcpy (buffer f) 0 src l (unat len - l) = Some b"
    using kmemcpy_ok [of 0 "unat len - l" "buffer f" l src] lb by auto
  define g where "g = f\<lparr>buffer := b\<rparr>"
  have g: "put_rest f src len = Some g"
    using b by (simp add: put_rest_def g_def n flip: l_def)
  have s: "same_but_buffer f g"
    using kmemcpy_nth(2) [OF b] m lb by (simp add: same_but_buffer_def g_def)
  have "slot g (fin f + of_nat i) = (if l \<le> i \<and> i < unat len then src ! i else slot f (fin f + of_nat i))"
    if i: "i < ring_size f" for i
  proof -
    define p where "p = unat (mask_of f (fin f + of_nat i))"
    have p: "p = (if m + i < ring_size f then m + i else m + i - ring_size f)"
      using mask_of_wrap [OF ok i, of "fin f"] by (simp add: p_def m_def)
    have "p < length (buffer f)" using lb ok by (simp add: p_def mask_of_less)
    from kmemcpy_nth(1) [OF b this] have "b ! p = (if l \<le> i \<and> i < unat len then src ! i else buffer f ! p)"
      using p m l i fits by (auto split: if_splits)
    then show ?thesis by (simp add: slot_def g_def p_def mask_of_def)
  qed
  with that g s show thesis by (simp add: l_def)
qed

text \<open>The queued bytes lie at the offsets from \<open>fin\<close> that are left after the free ones.\<close>

lemma slot_from_fin:
  assumes ok: "fifo_ok f" and j: "j < used f"
  shows "slot f (fout f + of_nat j) = slot f (fin f + of_nat (ring_size f - used f + j))"
proof -
  have u: "used f \<le> ring_size f" using ok by (simp add: fifo_ok_def)
  have "fin f = fout f + of_nat (used f)" by (simp add: used_def)
  then have "fin f + of_nat (ring_size f - used f + j) = fout f + of_nat (ring_size f + j)"
    using u by (simp flip: of_nat_add)
  then have "unat (mask_of f (fin f + of_nat (ring_size f - used f + j))) = unat (mask_of f (fout f + of_nat j))"
    using ok by (simp only: mask_of_add) (simp add: mod_simps add.left_commute)
  then show ?thesis by (simp add: slot_def)
qed

lemma contents_untouched:
  assumes ok: "fifo_ok f" and g: "same_but_buffer f g"
    and same: "\<And>i. ring_size f - used f \<le> i \<Longrightarrow> i < ring_size f \<Longrightarrow> slot g (fin f + of_nat i) = slot f (fin f + of_nat i)"
  shows "contents g = contents f"
proof -
  have "slot g (fout f + of_nat j) = slot f (fout f + of_nat j)" if j: "j < used f" for j
  proof -
    define d where "d = ring_size f - used f + j"
    have "used f \<le> ring_size f" using ok by (simp add: fifo_ok_def)
    then have d: "ring_size f - used f \<le> d" "d < ring_size f" using j by (simp_all add: d_def)
    have "slot f (fout f + of_nat j) = slot f (fin f + of_nat d)"
      unfolding d_def by (rule slot_from_fin [OF ok j])
    moreover have "slot g (fout f + of_nat j) = slot g (fin f + of_nat d)"
      using slot_from_fin [of g j] ok j by (simp only: same_but_buffer_simps [OF g] d_def)
    ultimately show ?thesis using same [OF d] by simp
  qed
  then show ?thesis by (simp add: contents_def same_but_buffer_simps [OF g])
qed

text \<open>The bytes a writer has put behind the queue, which \<open>put_done\<close> makes part of it.\<close>

definition written_bytes :: "kfifo \<Rightarrow> nat \<Rightarrow> byte list" where
  "written_bytes f n = map (\<lambda>i. slot f (fin f + of_nat i)) [0..<n]"

lemma used_put_done:
  assumes "fifo_ok f" "unat len \<le> ring_size f - used f"
  shows "used (put_done f len) = used f + unat len"
proof -
  have "used f + unat len < 2 ^ 32"
    using assms(2) ring_size_bound [OF assms(1)] used_le [OF assms(1)] by simp
  then have "unat ((fin f - fout f) + len) = used f + unat len"
    by (simp add: used_def unat_word_ariths)
  moreover have "fin f + len - fout f = (fin f - fout f) + len" by simp
  ultimately have "unat (fin f + len - fout f) = used f + unat len" by (simp only:)
  then show ?thesis by (simp add: used_def put_done_def)
qed

lemma put_done_contents:
  assumes "fifo_ok f" "unat len \<le> ring_size f - used f"
  shows "contents (put_done f len) = contents f @ written_bytes f (unat len)" "fifo_ok (put_done f len)"
proof -
  have slots: "slot (put_done f len) i = slot f i" for i
    by (simp add: slot_def put_done_def mask_of_def)
  have fo: "fout (put_done f len) = fout f" by (simp add: put_done_def)
  have "fin f = fout f + of_nat (used f)" by (simp add: used_def)
  then have shift: "slot f (fout f + of_nat (i + used f)) = slot f (fin f + of_nat i)" for i
    by (simp add: ac_simps)
  have "map (\<lambda>i. slot f (fout f + of_nat i)) [used f..<used f + unat len] = written_bytes f (unat len)"
    unfolding written_bytes_def shift [symmetric]
    by (rule nth_equalityI) (simp_all add: ac_simps)
  then show "contents (put_done f len) = contents f @ written_bytes f (unat len)"
    by (simp add: contents_def used_put_done [OF assms] slots fo
        upt_add_eq_append [of 0 "used f" "unat len"])
  show "fifo_ok (put_done f len)"
    using assms used_put_done [OF assms] by (auto simp: fifo_ok_def put_done_def)
qed

subsection \<open>The stages of a get\<close>

lemma contents_nth:
  assumes "fifo_ok f" "i < used f"
  shows "contents f ! i = buffer f ! ((unat (mask_of f (fout f)) + i) mod ring_size f)"
  using assms by (simp add: contents_def slot_def mask_of_add)

lemma get_first_prefix:
  assumes ok: "fifo_ok f" and len: "unat len \<le> used f" "unat len \<le> length dst"
  obtains d where "get_first f dst len = Some d" "length d = length dst"
    "take (unat (get_l f len)) d = take (unat (get_l f len)) (contents f)"
proof -
  define m where "m = unat (mask_of f (fout f))"
  define l where "l = unat (get_l f len)"
  have m: "m < ring_size f" using ok by (simp add: m_def mask_of_less)
  have l: "l = min (unat len) (ring_size f - m)" using ok by (simp add: l_def m_def get_l_nat)
  have lb: "length (buffer f) = ring_size f" using ok by (simp add: fifo_ok_def)
  have fits: "l \<le> length dst" "m + l \<le> ring_size f" "l \<le> used f" using l m len by auto
  then obtain d where d: "kmemcpy dst 0 (buffer f) m l = Some d"
    using kmemcpy_ok [of 0 l dst m "buffer f"] lb by auto
  then have dd: "d = take l (drop m (buffer f)) @ drop l dst" and ld: "length d = length dst"
    using fits lb by (auto simp: kmemcpy_def split: if_splits)
  have "take l d = take l (contents f)"
  proof (rule nth_equalityI)
    show "length (take l d) = length (take l (contents f))" using ld fits by simp
    fix i assume "i < length (take l d)"
    then have i: "i < l" by simp
    then show "take l d ! i = take l (contents f) ! i"
      using fits lb m contents_nth [OF ok, of i] by (simp add: dd nth_append flip: m_def)
  qed
  with that d ld show thesis by (simp add: get_first_def m_def l_def)
qed

lemma get_rest_prefix:
  assumes ok: "fifo_ok f" and len: "unat len \<le> used f" "unat len \<le> length dst"
    and pre: "take (unat (get_l f len)) dst = take (unat (get_l f len)) (contents f)"
  obtains d where "get_rest f dst len = Some d" "length d = length dst"
    "take (unat len) d = take (unat len) (contents f)" "drop (unat len) d = drop (unat len) dst"
proof -
  define m where "m = unat (mask_of f (fout f))"
  define l where "l = unat (get_l f len)"
  have m: "m < ring_size f" using ok by (simp add: m_def mask_of_less)
  have l: "l = min (unat len) (ring_size f - m)" using ok by (simp add: l_def m_def get_l_nat)
  have lb: "length (buffer f) = ring_size f" using ok by (simp add: fifo_ok_def)
  have n: "unat (len - get_l f len) = unat len - l"
    by (simp add: l_def unat_sub get_l_def)
  have fits: "l + (unat len - l) = unat len" "unat len - l \<le> ring_size f" "l \<le> unat len"
    using l len(1) used_le [OF ok] by auto
  then obtain d where d: "kmemcpy dst l (buffer f) 0 (unat len - l) = Some d"
    using kmemcpy_ok [of l "unat len - l" dst 0 "buffer f"] lb len by auto
  then have dd: "d = take l dst @ take (unat len - l) (buffer f) @ drop (unat len) dst"
    and ld: "length d = length dst"
    using fits lb len by (auto simp: kmemcpy_def split: if_splits)
  have "take (unat len) d = take (unat len) (contents f)"
  proof (rule nth_equalityI)
    show "length (take (unat len) d) = length (take (unat len) (contents f))" using ld len by simp
    fix i assume "i < length (take (unat len) d)"
    then have i: "i < unat len" by simp
    show "take (unat len) d ! i = take (unat len) (contents f) ! i"
    proof (cases "i < l")
      case True
      then have "take l dst ! i = take l (contents f) ! i" using pre by (simp add: l_def)
      with True i len fits show ?thesis by (simp add: dd nth_append)
    next
      case False
      then have w: "l = ring_size f - m" "m + i \<ge> ring_size f" using i l by auto
      then have "(m + i) mod ring_size f = i - l"
        using i len(1) used_le [OF ok] m le_mod_geq [of "ring_size f" "m + i"] by simp
      with False i len fits lb show ?thesis
        using contents_nth [OF ok, of i] by (simp add: dd nth_append flip: m_def)
    qed
  qed
  moreover have "drop (unat len) d = drop (unat len) dst"
    using fits len lb by (simp add: dd)
  ultimately show thesis using that d ld by (simp add: get_rest_def n flip: l_def)
qed

lemma get_done_contents:
  assumes ok: "fifo_ok f" and len: "unat len \<le> used f"
  shows "contents (get_done f len) = drop (unat len) (contents f)" "fifo_ok (get_done f len)"
    "used (get_done f len) = used f - unat len"
proof -
  have "fin f - (fout f + len) = (fin f - fout f) - len" by simp
  moreover have "unat ((fin f - fout f) - len) = used f - unat len"
    using len by (simp add: used_def unat_sub word_le_nat_alt)
  ultimately have "unat (fin f - (fout f + len)) = used f - unat len" by (simp only:)
  then show u: "used (get_done f len) = used f - unat len"
    by (simp add: used_def get_done_def)
  have slots: "slot (get_done f len) i = slot f i" for i
    by (simp add: slot_def get_done_def mask_of_def)
  show "contents (get_done f len) = drop (unat len) (contents f)"
  proof (rule nth_equalityI)
    fix i assume "i < length (contents (get_done f len))"
    then have i: "i < used f - unat len" by (simp add: u)
    then show "contents (get_done f len) ! i = drop (unat len) (contents f) ! i"
      by (simp add: contents_def u slots) (simp add: get_done_def add.assoc)
  qed (simp add: u)
  show "fifo_ok (get_done f len)"
    using ok u by (auto simp: fifo_ok_def get_done_def)
qed

section \<open>The contract of a bounded queue\<close>

text \<open>A request of a client, and the run of a list of them: the bytes taken over and the bytes handed out.\<close>

datatype request = Put "byte list" u32 | Get "byte list" u32

primrec valid_request :: "request \<Rightarrow> bool" where
  "valid_request (Put src len) \<longleftrightarrow> unat len \<le> length src"
| "valid_request (Get dst len) \<longleftrightarrow> unat len \<le> length dst"

fun run_requests ::
  "('q \<Rightarrow> byte list \<Rightarrow> u32 \<Rightarrow> kerror + u32 \<times> 'q) \<Rightarrow> ('q \<Rightarrow> byte list \<Rightarrow> u32 \<Rightarrow> kerror + (u32 \<times> byte list) \<times> 'q) \<Rightarrow>
   'q \<Rightarrow> request list \<Rightarrow> kerror + (byte list \<times> byte list) \<times> 'q" where
  "run_requests put get q [] = Inr (([], []), q)"
| "run_requests put get q (Put src len # rs) =
     (case put q src len of
        Inl e \<Rightarrow> Inl e
      | Inr (n, q) \<Rightarrow>
          (case run_requests put get q rs of
             Inl e \<Rightarrow> Inl e
           | Inr ((i, out), q) \<Rightarrow> Inr ((take (unat n) src @ i, out), q)))"
| "run_requests put get q (Get dst len # rs) =
     (case get q dst len of
        Inl e \<Rightarrow> Inl e
      | Inr ((n, d), q) \<Rightarrow>
          (case run_requests put get q rs of
             Inl e \<Rightarrow> Inl e
           | Inr ((i, out), q) \<Rightarrow> Inr ((i, take (unat n) d @ out), q)))"

locale bounded_queue =
  fixes ok :: "'q \<Rightarrow> bool" and content :: "'q \<Rightarrow> byte list" and cap :: "'q \<Rightarrow> nat"
    and put :: "'q \<Rightarrow> byte list \<Rightarrow> u32 \<Rightarrow> kerror + u32 \<times> 'q"
    and get :: "'q \<Rightarrow> byte list \<Rightarrow> u32 \<Rightarrow> kerror + (u32 \<times> byte list) \<times> 'q"
  assumes put_law: "ok q \<Longrightarrow> unat len \<le> length src \<Longrightarrow>
      \<exists>n q'. put q src len = Inr (n, q') \<and> ok q' \<and> cap q' = cap q \<and>
        unat n = min (unat len) (cap q - length (content q)) \<and> content q' = content q @ take (unat n) src"
    and get_law: "ok q \<Longrightarrow> unat len \<le> length dst \<Longrightarrow>
      \<exists>n d q'. get q dst len = Inr ((n, d), q') \<and> ok q' \<and> cap q' = cap q \<and>
        unat n = min (unat len) (length (content q)) \<and> take (unat n) d = take (unat n) (content q) \<and>
        drop (unat n) d = drop (unat n) dst \<and> content q' = drop (unat n) (content q)"
begin

text \<open>Every run returns, and the bytes leave in the order they came.\<close>

lemma stream:
  "ok q \<Longrightarrow> list_all valid_request rs \<Longrightarrow>
   \<exists>i out q'. run_requests put get q rs = Inr ((i, out), q') \<and> ok q' \<and> cap q' = cap q \<and>
     content q @ i = out @ content q'"
proof (induction rs arbitrary: q)
  case Nil
  then show ?case by simp
next
  case (Cons r rs)
  show ?case
  proof (cases r)
    case (Put src len)
    with Cons.prems put_law [of q len src] obtain n q1 where 1: "put q src len = Inr (n, q1)" "ok q1" "cap q1 = cap q"
      "content q1 = content q @ take (unat n) src" by auto
    with Cons.IH [of q1] Cons.prems Put show ?thesis by auto
  next
    case (Get dst len)
    with Cons.prems get_law [of q len dst] obtain n d q1 where 1: "get q dst len = Inr ((n, d), q1)" "ok q1"
      "cap q1 = cap q" "take (unat n) d = take (unat n) (content q)" "content q1 = drop (unat n) (content q)" by auto
    with Cons.IH [of q1] Cons.prems Get obtain i out q2 where
      2: "run_requests put get q1 rs = Inr ((i, out), q2)" "ok q2" "cap q2 = cap q1"
      "content q1 @ i = out @ content q2" by auto
    have "content q @ i = take (unat n) (content q) @ content q1 @ i" using 1 by simp
    with 1 2 Get show ?thesis by simp
  qed
qed

end

lemma raw_put_law:
  assumes ok: "fifo_ok f" and src: "unat len \<le> length src"
  shows "\<exists>n g. raw_kfifo_put f src len = Inr (n, g) \<and> fifo_ok g \<and> ring_size g = ring_size f \<and> locked g = locked f \<and>
    block g = block f \<and> unat n = min (unat len) (ring_size f - used f) \<and> contents g = contents f @ take (unat n) src"
proof -
  define n where "n = put_len f len"
  have n: "unat n = min (unat len) (ring_size f - used f)" using ok by (simp add: n_def put_len_nat)
  then have fits: "unat n \<le> length src" "unat n \<le> ring_size f" "unat n \<le> ring_size f - used f" using src by auto
  obtain g where g: "put_first f src n = Some g" "same_but_buffer f g"
    "\<And>i. i < ring_size f \<Longrightarrow>
       slot g (fin f + of_nat i) = (if i < unat (put_l f n) then src ! i else slot f (fin f + of_nat i))"
    using put_first_slots [OF ok fits(1)] by blast
  note gs = same_but_buffer_simps [OF g(2)]
  have okg: "fifo_ok g" using ok by (simp add: gs)
  obtain h where h: "put_rest g src n = Some h" "same_but_buffer g h"
    "\<And>i. i < ring_size f \<Longrightarrow> slot h (fin f + of_nat i) =
       (if unat (put_l f n) \<le> i \<and> i < unat n then src ! i else slot g (fin f + of_nat i))"
    using put_rest_slots [OF okg fits(1), unfolded gs, OF fits(2)] by blast
  have fh: "same_but_buffer f h" by (rule same_but_buffer_trans [OF g(2) h(2)])
  note hs = same_but_buffer_simps [OF fh]
  have okh: "fifo_ok h" using ok by (simp add: hs)
  have l: "unat (put_l f n) \<le> unat n" by (simp add: put_l_nat [OF ok])
  have "contents h = contents f"
    by (rule contents_untouched [OF ok fh]) (use g(3) h(3) fits l in auto)
  moreover have "written_bytes h (unat n) = take (unat n) src"
    using fits g(3) h(3) by (intro nth_equalityI) (auto simp: written_bytes_def hs)
  moreover have "unat n \<le> ring_size h - used h" using fits(3) by (simp add: hs)
  ultimately have "contents (put_done h n) = contents f @ take (unat n) src" "fifo_ok (put_done h n)"
    using put_done_contents [OF okh, of n] by simp_all
  moreover have "raw_kfifo_put f src len = Inr (n, put_done h n)"
    using g(1) h(1) by (simp add: raw_kfifo_put_def flip: n_def)
  moreover have "ring_size (put_done h n) = ring_size f" "locked (put_done h n) = locked f" "block (put_done h n) = block f"
    by (simp_all add: put_done_def hs)
  ultimately show ?thesis using n by blast
qed

lemma raw_get_law:
  assumes ok: "fifo_ok f" and dst: "unat len \<le> length dst"
  shows "\<exists>n d g. raw_kfifo_get f dst len = Inr ((n, d), g) \<and> fifo_ok g \<and> ring_size g = ring_size f \<and> locked g = locked f \<and>
    block g = block f \<and> unat n = min (unat len) (used f) \<and> take (unat n) d = take (unat n) (contents f) \<and>
    drop (unat n) d = drop (unat n) dst \<and> contents g = drop (unat n) (contents f)"
proof -
  define n where "n = get_len f len"
  have n: "unat n = min (unat len) (used f)" by (simp add: n_def get_len_nat)
  then have fits: "unat n \<le> used f" "unat n \<le> length dst" using dst by auto
  obtain d where d: "get_first f dst n = Some d" "length d = length dst"
    "take (unat (get_l f n)) d = take (unat (get_l f n)) (contents f)"
    using get_first_prefix [OF ok fits] by blast
  obtain e where e: "get_rest f d n = Some e" "length e = length d" "take (unat n) e = take (unat n) (contents f)"
    "drop (unat n) e = drop (unat n) d"
    using get_rest_prefix [OF ok fits(1) _ d(3)] d(2) fits(2) by auto
  have "drop (unat n) d = drop (unat n) dst"
    using d(1) get_l_nat [OF ok, of n]
    by (auto simp: get_first_def kmemcpy_def split: if_splits)
  moreover have "raw_kfifo_get f dst len = Inr ((n, e), get_done f n)"
    using d(1) e(1) by (simp add: raw_kfifo_get_def flip: n_def)
  moreover have "ring_size (get_done f n) = ring_size f" "locked (get_done f n) = locked f" "block (get_done f n) = block f"
    by (simp_all add: get_done_def)
  ultimately show ?thesis using n e get_done_contents [OF ok fits(1)] by auto
qed

interpretation raw_queue: bounded_queue fifo_ok contents ring_size raw_kfifo_put raw_kfifo_get
proof (unfold_locales, goal_cases)
  case (1 q len src)
  then show ?case using raw_put_law [of q len src] unfolding length_contents by blast
next
  case (2 q len dst)
  then show ?case using raw_get_law [of q len dst] unfolding length_contents by blast
qed

text \<open>The locked operations keep the contract; a get that empties the queue also resets the indices.\<close>

definition kfifo_ok :: "kfifo \<Rightarrow> bool" where
  "kfifo_ok f \<longleftrightarrow> fifo_ok f \<and> \<not> locked f"

lemma lock_simps [simp]:
  "contents (f\<lparr>locked := b\<rparr>) = contents f" "fifo_ok (f\<lparr>locked := b\<rparr>) = fifo_ok f" "used (f\<lparr>locked := b\<rparr>) = used f"
  "contents (spin_unlock_irqrestore f) = contents f" "fifo_ok (spin_unlock_irqrestore f) = fifo_ok f"
  "locked (spin_unlock_irqrestore f) = False" "fsize (spin_unlock_irqrestore f) = fsize f"
  "block (spin_unlock_irqrestore f) = block f"
  by (simp_all add: spin_unlock_irqrestore_def contents_def fifo_ok_def used_def slot_def mask_of_def)

lemma lock_taken:
  assumes "kfifo_ok f"
  obtains g where "spin_lock_irqsave f = Inr g" "fifo_ok g" "contents g = contents f" "used g = used f"
    "ring_size g = ring_size f" "block g = block f"
  using assms that [of "f\<lparr>locked := True\<rparr>"] by (simp add: spin_lock_irqsave_def kfifo_ok_def)

lemma reset_contents:
  "contents (raw_kfifo_reset f) = []" "fifo_ok f \<Longrightarrow> fifo_ok (raw_kfifo_reset f)"
  by (simp_all add: raw_kfifo_reset_def contents_def fifo_ok_def used_def)

lemma reset_if_empty:
  assumes "fifo_ok f"
  shows "contents (if fin f = fout f then f\<lparr>fin := 0, fout := 0\<rparr> else f) = contents f"
    "fifo_ok (if fin f = fout f then f\<lparr>fin := 0, fout := 0\<rparr> else f)"
  using assms reset_contents [of f] by (auto simp: raw_kfifo_reset_def contents_def used_def)

lemma put_law:
  assumes ok: "kfifo_ok f" and src: "unat len \<le> length src"
  shows "\<exists>n g. kfifo_put f src len = Inr (n, g) \<and> kfifo_ok g \<and> ring_size g = ring_size f \<and> block g = block f \<and>
    unat n = min (unat len) (ring_size f - used f) \<and> contents g = contents f @ take (unat n) src"
proof -
  from ok obtain f1 where f1: "spin_lock_irqsave f = Inr f1" "fifo_ok f1" "contents f1 = contents f" "used f1 = used f"
    "ring_size f1 = ring_size f" "block f1 = block f"
    by (rule lock_taken)
  from raw_put_law [OF f1(2) src] obtain n g where g: "raw_kfifo_put f1 src len = Inr (n, g)" "fifo_ok g"
    "ring_size g = ring_size f1" "block g = block f1" "unat n = min (unat len) (ring_size f1 - used f1)"
    "contents g = contents f1 @ take (unat n) src" by blast
  then have "kfifo_put f src len = Inr (n, spin_unlock_irqrestore g)" by (simp add: kfifo_put_def f1)
  with g f1 show ?thesis
    by (intro exI [of _ n] exI [of _ "spin_unlock_irqrestore g"] conjI) (simp_all add: kfifo_ok_def)
qed

lemma get_law:
  assumes ok: "kfifo_ok f" and dst: "unat len \<le> length dst"
  shows "\<exists>n d g. kfifo_get f dst len = Inr ((n, d), g) \<and> kfifo_ok g \<and> ring_size g = ring_size f \<and> block g = block f \<and>
    unat n = min (unat len) (used f) \<and> take (unat n) d = take (unat n) (contents f) \<and>
    drop (unat n) d = drop (unat n) dst \<and> contents g = drop (unat n) (contents f)"
proof -
  from ok obtain f1 where f1: "spin_lock_irqsave f = Inr f1" "fifo_ok f1" "contents f1 = contents f" "used f1 = used f"
    "ring_size f1 = ring_size f" "block f1 = block f"
    by (rule lock_taken)
  from raw_get_law [OF f1(2) dst] obtain n d g where g: "raw_kfifo_get f1 dst len = Inr ((n, d), g)" "fifo_ok g"
    "ring_size g = ring_size f1" "block g = block f1" "unat n = min (unat len) (used f1)"
    "take (unat n) d = take (unat n) (contents f1)" "drop (unat n) d = drop (unat n) dst"
    "contents g = drop (unat n) (contents f1)" by blast
  define h where "h = (if fin g = fout g then g\<lparr>fin := 0, fout := 0\<rparr> else g)"
  have h: "contents h = contents g" "fifo_ok h" "fsize h = fsize g" "block h = block g"
    using reset_if_empty [OF g(2)] by (simp_all add: h_def)
  have "kfifo_get f dst len = Inr ((n, d), spin_unlock_irqrestore h)" using g(1) by (simp add: kfifo_get_def f1 h_def)
  with g f1 h show ?thesis
    by (intro exI [of _ n] exI [of _ d] exI [of _ "spin_unlock_irqrestore h"] conjI) (simp_all add: kfifo_ok_def)
qed

interpretation locked_queue: bounded_queue kfifo_ok contents ring_size kfifo_put kfifo_get
proof (unfold_locales, goal_cases)
  case (1 q len src)
  then show ?case using put_law [of q len src] unfolding length_contents by blast
next
  case (2 q len dst)
  then show ?case using get_law [of q len dst] unfolding length_contents by blast
qed

text \<open>So any sequence of calls on a queue returns, and hands the bytes out in the order it took them over.\<close>

lemma kfifo_stream:
  assumes "kfifo_ok f" "list_all valid_request rs"
  shows "\<exists>i out g. run_requests kfifo_put kfifo_get f rs = Inr ((i, out), g) \<and> kfifo_ok g \<and>
    contents f @ i = out @ contents g"
  using locked_queue.stream [OF assms] by blast

section \<open>Allocation\<close>

lemma kfifo_init_ok:
  assumes "is_power_of_2 sz" "length b = unat sz"
  shows "kfifo_ok \<lparr>block = i, buffer = b, fsize = sz, fin = 0, fout = 0, locked = False\<rparr>"
    "contents \<lparr>block = i, buffer = b, fsize = sz, fin = 0, fout = 0, locked = False\<rparr> = []"
  using assms by (simp_all add: kfifo_ok_def fifo_ok_def used_def contents_def)

text \<open>The size a queue is given, for the sizes that do not trip a \<open>BUG_ON\<close>.\<close>

definition alloc_size :: "u32 \<Rightarrow> u32" where
  "alloc_size sz = (if sz AND (sz - 1) \<noteq> 0 then roundup_pow_of_two sz else sz)"

lemma alloc_size_least:
  assumes "0 < unat sz" "unat sz \<le> 2 ^ 31"
  shows "is_power_of_2 (alloc_size sz)" "unat sz \<le> unat (alloc_size sz)" "unat (alloc_size sz) < 2 * unat sz"
proof -
  have nz: "sz \<noteq> 0" using assms(1) by auto
  have "is_power_of_2 (alloc_size sz) \<and> unat sz \<le> unat (alloc_size sz) \<and> unat (alloc_size sz) < 2 * unat sz"
  proof (cases "sz AND (sz - 1) = 0")
    case True
    then show ?thesis using assms nz by (simp add: alloc_size_def is_power_of_2_def)
  next
    case False
    then have "sz \<noteq> 1" by auto
    then have "unat sz \<noteq> 1" by (metis unat_1 word_unat_eq_iff)
    then have "1 < unat sz" using assms(1) by simp
    with False show ?thesis using roundup_pow_of_two_least [of sz] assms(2) by (simp add: alloc_size_def)
  qed
  then show "is_power_of_2 (alloc_size sz)" "unat sz \<le> unat (alloc_size sz)" "unat (alloc_size sz) < 2 * unat sz"
    by simp_all
qed

text \<open>No value above \<open>2 ^ 31\<close> is a power of two, so such a size trips the \<open>BUG_ON\<close> of \<open>kfifo_alloc\<close>.\<close>

lemma oversized: "2 ^ 31 < unat (sz :: u32) \<Longrightarrow> sz AND (sz - 1) \<noteq> 0 \<and> sz > 0x80000000"
proof
  assume big: "2 ^ 31 < unat sz"
  show "sz AND (sz - 1) \<noteq> 0"
  proof
    assume "sz AND (sz - 1) = 0"
    then have "is_power_of_2 sz" using big by (auto simp: is_power_of_2_def)
    then obtain k where "k < 32" "unat sz = 2 ^ k" by (auto simp: is_power_of_2_iff)
    moreover from this have "(2 :: nat) ^ k \<le> 2 ^ 31" by (intro power_increasing) simp_all
    ultimately show False using big by simp
  qed
  show "sz > 0x80000000" using big by (simp add: word_less_nat_alt)
qed

lemma alloc_unfold:
  assumes "unat sz \<le> 2 ^ 31"
  shows "kfifo_alloc junk sz lock h =
     (case kmalloc h of
        (None, h) \<Rightarrow> (Inl ENOMEM, h)
      | (Some b, h) \<Rightarrow>
          (case kfifo_init (b, map junk [0..<unat (alloc_size sz)]) (alloc_size sz) lock h of
             (Inl ENOMEM, h) \<Rightarrow> (Inl ENOMEM, kfree b h)
           | r \<Rightarrow> r))"
proof -
  have "\<not> sz > 0x80000000" using assms by (simp add: word_less_nat_alt)
  then show ?thesis
    unfolding kfifo_alloc_def alloc_size_def [symmetric] Let_def by (simp only: if_False simp_thms)
qed

section \<open>Properties\<close>

text \<open>
  C14: the locked operations implement a bounded queue of bytes.  With a free lock and a caller's buffer of at least
  the requested length, \<open>kfifo_put\<close> appends as many bytes as fit and \<open>kfifo_get\<close> removes as many of the
  oldest bytes as there are, whatever the wrap-around of the 32-bit indices; both return this number, write
  nothing else to the caller's buffer, leave the lock free and keep the invariant.  \<open>kfifo_reset\<close> empties the queue and
  \<open>kfifo_len\<close> is the number of queued bytes.
\<close>

theorem kfifo_refines:
  assumes "kfifo_ok f" "unat len \<le> length buf"
  shows "(\<exists>n g. kfifo_put f buf len = Inr (n, g) \<and> kfifo_ok g \<and> ring_size g = ring_size f \<and>
      unat n = min (unat len) (ring_size f - length (contents f)) \<and>
      contents g = contents f @ take (unat n) buf) \<and>
    (\<exists>n d g. kfifo_get f buf len = Inr ((n, d), g) \<and> kfifo_ok g \<and> ring_size g = ring_size f \<and>
      unat n = min (unat len) (length (contents f)) \<and> d = take (unat n) (contents f) @ drop (unat n) buf \<and>
      contents g = drop (unat n) (contents f)) \<and>
    (\<exists>g. kfifo_reset f = Inr g \<and> kfifo_ok g \<and> contents g = []) \<and>
    (\<exists>n. kfifo_len f = Inr (n, f) \<and> unat n = length (contents f))"
proof (intro conjI)
  show "\<exists>n g. kfifo_put f buf len = Inr (n, g) \<and> kfifo_ok g \<and> ring_size g = ring_size f \<and>
      unat n = min (unat len) (ring_size f - length (contents f)) \<and> contents g = contents f @ take (unat n) buf"
    by (rule locked_queue.put_law [OF assms])
  obtain n d g where g: "kfifo_get f buf len = Inr ((n, d), g)" "kfifo_ok g" "ring_size g = ring_size f"
    "unat n = min (unat len) (length (contents f))" "take (unat n) d = take (unat n) (contents f)"
    "drop (unat n) d = drop (unat n) buf" "contents g = drop (unat n) (contents f)"
    using locked_queue.get_law [OF assms] by blast
  moreover have "d = take (unat n) (contents f) @ drop (unat n) buf"
    using g(5,6) append_take_drop_id [of "unat n" d] by simp
  ultimately show "\<exists>n d g. kfifo_get f buf len = Inr ((n, d), g) \<and> kfifo_ok g \<and> ring_size g = ring_size f \<and>
      unat n = min (unat len) (length (contents f)) \<and> d = take (unat n) (contents f) @ drop (unat n) buf \<and>
      contents g = drop (unat n) (contents f)" by blast
  show "\<exists>g. kfifo_reset f = Inr g \<and> kfifo_ok g \<and> contents g = []"
    using assms(1) by (simp add: kfifo_reset_def spin_lock_irqsave_def kfifo_ok_def reset_contents)
  show "\<exists>n. kfifo_len f = Inr (n, f) \<and> unat n = length (contents f)"
    using assms(1)
    by (simp add: kfifo_len_def spin_lock_irqsave_def kfifo_ok_def raw_kfifo_len_def used_def spin_unlock_irqrestore_def)
qed

text \<open>A queue of four bytes whose indices have just wrapped.\<close>

definition wrapped :: kfifo where
  "wrapped = \<lparr>block = 0, buffer = [1, 2, 3, 4], fsize = 4, fin = 1, fout = 0xffffffff, locked = False\<rparr>"

lemma wrapped_eval: "kfifo_ok wrapped" "contents wrapped = [4, 1]" "ring_size wrapped = 4"
  by code_simp+

theorem kfifo_refines_witness:
  "kfifo_ok wrapped \<and> unat (3 :: u32) \<le> length [7, 8, 9 :: byte] \<and>
   (\<exists>n g. kfifo_put wrapped [7, 8, 9] 3 = Inr (n, g) \<and> unat n = 2 \<and> contents g = [4, 1, 7, 8])"
proof -
  have "unat (3 :: u32) \<le> length [7, 8, 9 :: byte]" by simp
  from kfifo_refines [OF wrapped_eval(1) this] show ?thesis
    by (auto simp: wrapped_eval)
qed

text \<open>
  C39: \<open>kfifo_alloc\<close> with a free lock returns an empty queue whose size is the least power of two that
  is not below the requested one, as soon as the allocator grants both blocks and the request is between 1 and
  \<open>2 ^ 31\<close>; freeing the queue gives both blocks back.  When the allocator refuses a block, the result is \<open>ENOMEM\<close>
  and no block is lost.  A \<open>BUG_ON\<close> is only tripped by a request of zero or of more than \<open>2 ^ 31\<close> bytes.
\<close>

theorem kfifo_alloc_free:
  "(case kfifo_alloc junk sz False h of
      (Inr (p, f), h') \<Rightarrow> kfifo_ok f \<and> contents f = [] \<and> unat sz \<le> ring_size f \<and> ring_size f < 2 * unat sz \<and>
        live (kfifo_free (p, f) h') = live h
    | (Inl e, h') \<Rightarrow> e = ENOMEM \<and> live h' = live h \<or> e = BUG \<and> (sz = 0 \<or> 2 ^ 31 < unat sz)) \<and>
   (0 < unat sz \<and> unat sz \<le> 2 ^ 31 \<and> grants h = True # True # gs \<longrightarrow>
      (\<exists>p f h'. kfifo_alloc junk sz False h = (Inr (p, f), h')))"
proof (cases "0 < unat sz \<and> unat sz \<le> 2 ^ 31")
  case True
  then have range: "0 < unat sz" "unat sz \<le> 2 ^ 31" by simp_all
  show ?thesis
    using alloc_size_least [OF range] kfifo_init_ok [OF alloc_size_least(1) [OF range]]
    by (auto simp: alloc_unfold [OF range(2)] kmalloc_def kfifo_init_def kfree_def kfifo_free_def
        split: list.splits bool.splits)
next
  case False
  then consider "sz = 0" | "2 ^ 31 < unat sz" by (auto simp: unat_eq_0)
  then show ?thesis
  proof cases
    case 1
    then show ?thesis
      by (auto simp: kfifo_alloc_def kmalloc_def kfifo_init_def is_power_of_2_def split: list.splits bool.splits)
  next
    case 2
    then show ?thesis using oversized [OF 2] by (simp add: kfifo_alloc_def)
  qed
qed

theorem kfifo_alloc_free_witness:
  "\<exists>p f h'. kfifo_alloc (\<lambda>_. 0) 5 False \<lparr>grants = [True, True], live = [], fresh = 0\<rparr> = (Inr (p, f), h') \<and>
     contents f = [] \<and> 5 \<le> ring_size f \<and> ring_size f < 10 \<and> live (kfifo_free (p, f) h') = []"
  using kfifo_alloc_free [where junk = "\<lambda>_. 0" and sz = 5 and gs = "[]"
      and h = "\<lparr>grants = [True, True], live = [], fresh = 0\<rparr>"] by auto

end
