(* ===== verification/KfifoConcurrent.thy ===== *)
theory KfifoConcurrent
  imports Kfifo
begin

text \<open>
  One writer and one reader on a queue of kernel/kfifo.c without its lock.  A call of \<open>__kfifo_put\<close> or \<open>__kfifo_get\<close> is a
  sequence of stages, separated where the code has its memory barriers and copies: the index of the other side is
  sampled, the two copies are made, the own index is advanced.  The stages of the two sides interleave
  freely.  An index is read and written at once, as an aligned word is, and a copy is one step: the proof
  shows that the two sides never touch the same slot at the same time.
\<close>

section \<open>The interleaving\<close>

datatype writer_at = Putting_none | At_put_first "byte list" u32 | At_put_rest "byte list" u32 | At_put_done "byte list" u32
datatype reader_at = Getting_none | At_get_first "byte list" u32 | At_get_rest "byte list" u32 | At_get_done "byte list" u32

text \<open>\<open>sent\<close> and \<open>received\<close> are the bytes of the completed calls.\<close>

record ring_state =
  ring :: kfifo
  writer :: writer_at
  reader :: reader_at
  sent :: "byte list"
  received :: "byte list"

inductive ring_step :: "ring_state \<Rightarrow> ring_state \<Rightarrow> bool" where
  put_sample: "writer s = Putting_none \<Longrightarrow> unat len \<le> length src \<Longrightarrow>
    ring_step s (s\<lparr>writer := At_put_first src (put_len (ring s) len)\<rparr>)"
| put_copy: "writer s = At_put_first src len \<Longrightarrow> put_first (ring s) src len = Some f \<Longrightarrow>
    ring_step s (s\<lparr>ring := f, writer := At_put_rest src len\<rparr>)"
| put_wrap: "writer s = At_put_rest src len \<Longrightarrow> put_rest (ring s) src len = Some f \<Longrightarrow>
    ring_step s (s\<lparr>ring := f, writer := At_put_done src len\<rparr>)"
| put_advance: "writer s = At_put_done src len \<Longrightarrow>
    ring_step s (s\<lparr>ring := put_done (ring s) len, writer := Putting_none, sent := sent s @ take (unat len) src\<rparr>)"
| get_sample: "reader s = Getting_none \<Longrightarrow> unat len \<le> length dst \<Longrightarrow>
    ring_step s (s\<lparr>reader := At_get_first dst (get_len (ring s) len)\<rparr>)"
| get_copy: "reader s = At_get_first dst len \<Longrightarrow> get_first (ring s) dst len = Some d \<Longrightarrow>
    ring_step s (s\<lparr>reader := At_get_rest d len\<rparr>)"
| get_wrap: "reader s = At_get_rest dst len \<Longrightarrow> get_rest (ring s) dst len = Some d \<Longrightarrow>
    ring_step s (s\<lparr>reader := At_get_done d len\<rparr>)"
| get_advance: "reader s = At_get_done dst len \<Longrightarrow>
    ring_step s (s\<lparr>ring := get_done (ring s) len, reader := Getting_none, received := received s @ take (unat len) dst\<rparr>)"

inductive_cases ring_stepE: "ring_step s t"

text \<open>A side is stuck when its next copy would leave a block.\<close>

definition writer_enabled :: "ring_state \<Rightarrow> bool" where
  "writer_enabled s =
     (case writer s of
        At_put_first src len \<Rightarrow> put_first (ring s) src len \<noteq> None
      | At_put_rest src len \<Rightarrow> put_rest (ring s) src len \<noteq> None
      | _ \<Rightarrow> True)"

definition reader_enabled :: "ring_state \<Rightarrow> bool" where
  "reader_enabled s =
     (case reader s of
        At_get_first dst len \<Rightarrow> get_first (ring s) dst len \<noteq> None
      | At_get_rest dst len \<Rightarrow> get_rest (ring s) dst len \<noteq> None
      | _ \<Rightarrow> True)"

text \<open>Both sides idle on a queue; what it holds counts as sent.\<close>

definition ring_start :: "kfifo \<Rightarrow> ring_state" where
  "ring_start f = \<lparr>ring = f, writer = Putting_none, reader = Getting_none, sent = contents f, received = []\<rparr>"

section \<open>The invariant\<close>

definition room :: "kfifo \<Rightarrow> byte list \<Rightarrow> u32 \<Rightarrow> bool" where
  "room f src len \<longleftrightarrow> unat len \<le> length src \<and> unat len \<le> ring_size f - used f"

fun writer_inv :: "kfifo \<Rightarrow> writer_at \<Rightarrow> bool" where
  "writer_inv f Putting_none \<longleftrightarrow> True"
| "writer_inv f (At_put_first src len) \<longleftrightarrow> room f src len"
| "writer_inv f (At_put_rest src len) \<longleftrightarrow> room f src len \<and>
     (\<forall>i < unat (put_l f len). slot f (fin f + of_nat i) = src ! i)"
| "writer_inv f (At_put_done src len) \<longleftrightarrow> room f src len \<and> written_bytes f (unat len) = take (unat len) src"

fun reader_inv :: "kfifo \<Rightarrow> reader_at \<Rightarrow> bool" where
  "reader_inv f Getting_none \<longleftrightarrow> True"
| "reader_inv f (At_get_first dst len) \<longleftrightarrow> unat len \<le> used f \<and> unat len \<le> length dst"
| "reader_inv f (At_get_rest dst len) \<longleftrightarrow> unat len \<le> used f \<and> unat len \<le> length dst \<and>
     take (unat (get_l f len)) dst = take (unat (get_l f len)) (contents f)"
| "reader_inv f (At_get_done dst len) \<longleftrightarrow> unat len \<le> used f \<and> unat len \<le> length dst \<and>
     take (unat len) dst = take (unat len) (contents f)"

definition ring_inv :: "ring_state \<Rightarrow> bool" where
  "ring_inv s \<longleftrightarrow> fifo_ok (ring s) \<and> sent s = received s @ contents (ring s) \<and>
     writer_inv (ring s) (writer s) \<and> reader_inv (ring s) (reader s)"

text \<open>What the stages of the writer leave to the reader, and the other way round.\<close>

lemma reader_inv_copy:
  assumes "same_but_buffer f g" "contents g = contents f"
  shows "reader_inv g r = reader_inv f r"
proof -
  have "get_l g len = get_l f len" for len
    using assms(1) by (simp add: get_l_def same_but_buffer_simps mask_of_def)
  then show ?thesis using assms by (cases r) (simp_all add: same_but_buffer_simps)
qed

lemma reader_inv_put_done:
  assumes "fifo_ok f" "unat n \<le> ring_size f - used f" "reader_inv f r"
  shows "reader_inv (put_done f n) r"
proof -
  have l: "get_l (put_done f n) len = get_l f len" for len
    by (simp add: get_l_def put_done_def mask_of_def)
  have le: "unat (get_l f len) \<le> unat len" for len by (simp add: get_l_nat [OF assms(1)])
  show ?thesis
    using assms(3) le put_done_contents(1) [OF assms(1,2)] used_put_done [OF assms(1,2)]
    by (cases r) (auto simp: l dest: order_trans [OF le])
qed

lemma writer_inv_get_done:
  assumes "fifo_ok f" "unat n \<le> used f" "writer_inv f w"
  shows "writer_inv (get_done f n) w"
proof -
  have "slot (get_done f n) i = slot f i" "fin (get_done f n) = fin f" "put_l (get_done f n) len = put_l f len"
    "fsize (get_done f n) = fsize f" for i len
    by (simp_all add: slot_def get_done_def mask_of_def put_l_def)
  then show ?thesis
    using assms get_done_contents(3) [OF assms(1,2)]
    by (cases w) (auto simp: room_def written_bytes_def)
qed

text \<open>The two copies of the writer.\<close>

lemma put_first_stage:
  assumes ok: "fifo_ok f" and w: "writer_inv f (At_put_first src len)"
  obtains g where "put_first f src len = Some g" "same_but_buffer f g" "contents g = contents f"
    "writer_inv g (At_put_rest src len)"
proof -
  have r: "unat len \<le> length src" "unat len \<le> ring_size f - used f" using w by (simp_all add: room_def)
  obtain g where g: "put_first f src len = Some g" "same_but_buffer f g"
    "\<And>i. i < ring_size f \<Longrightarrow>
       slot g (fin f + of_nat i) = (if i < unat (put_l f len) then src ! i else slot f (fin f + of_nat i))"
    using put_first_slots [OF ok r(1)] by blast
  note gs = same_but_buffer_simps [OF g(2)]
  have l: "unat (put_l f len) \<le> unat len" by (simp add: put_l_nat [OF ok])
  have "contents g = contents f"
    by (rule contents_untouched [OF ok g(2)]) (use g(3) r l in auto)
  moreover have "writer_inv g (At_put_rest src len)"
    using w g(3) l r by (auto simp: gs room_def)
  ultimately show thesis using that g by blast
qed

lemma put_rest_stage:
  assumes ok: "fifo_ok f" and w: "writer_inv f (At_put_rest src len)"
  obtains g where "put_rest f src len = Some g" "same_but_buffer f g" "contents g = contents f"
    "writer_inv g (At_put_done src len)"
proof -
  have r: "unat len \<le> length src" "unat len \<le> ring_size f - used f" "unat len \<le> ring_size f"
    using w by (auto simp: room_def)
  obtain g where g: "put_rest f src len = Some g" "same_but_buffer f g"
    "\<And>i. i < ring_size f \<Longrightarrow> slot g (fin f + of_nat i) =
       (if unat (put_l f len) \<le> i \<and> i < unat len then src ! i else slot f (fin f + of_nat i))"
    using put_rest_slots [OF ok r(1) r(3)] by blast
  note gs = same_but_buffer_simps [OF g(2)]
  have "contents g = contents f"
    by (rule contents_untouched [OF ok g(2)]) (use g(3) r in auto)
  moreover have "written_bytes g (unat len) = take (unat len) src"
    using w g(3) r by (intro nth_equalityI) (auto simp: written_bytes_def gs not_le)
  then have "writer_inv g (At_put_done src len)" using w by (simp add: gs room_def)
  ultimately show thesis using that g by blast
qed

lemma get_first_stage:
  assumes "fifo_ok f" "reader_inv f (At_get_first dst len)"
  obtains d where "get_first f dst len = Some d" "reader_inv f (At_get_rest d len)"
proof -
  have r: "unat len \<le> used f" "unat len \<le> length dst" using assms(2) by simp_all
  obtain d where "get_first f dst len = Some d" "length d = length dst"
    "take (unat (get_l f len)) d = take (unat (get_l f len)) (contents f)"
    using get_first_prefix [OF assms(1) r] by blast
  with that r show thesis by simp
qed

lemma get_rest_stage:
  assumes "fifo_ok f" "reader_inv f (At_get_rest dst len)"
  obtains d where "get_rest f dst len = Some d" "reader_inv f (At_get_done d len)"
proof -
  have r: "unat len \<le> used f" "unat len \<le> length dst"
    "take (unat (get_l f len)) dst = take (unat (get_l f len)) (contents f)" using assms(2) by simp_all
  obtain d where "get_rest f dst len = Some d" "length d = length dst"
    "take (unat len) d = take (unat len) (contents f)"
    using get_rest_prefix [OF assms(1) r] by blast
  with that r show thesis by simp
qed

lemma ring_inv_step: "ring_step s t \<Longrightarrow> ring_inv s \<Longrightarrow> ring_inv t"
proof (induction rule: ring_step.induct)
  case (put_sample s len src)
  then show ?case by (simp add: ring_inv_def room_def put_len_nat)
next
  case (put_copy s src len f)
  then have "fifo_ok (ring s)" "writer_inv (ring s) (At_put_first src len)" by (simp_all add: ring_inv_def)
  from put_first_stage [OF this] obtain g where g: "put_first (ring s) src len = Some g" "same_but_buffer (ring s) g"
    "contents g = contents (ring s)" "writer_inv g (At_put_rest src len)" by blast
  with put_copy have "g = f" by simp
  with g put_copy show ?case
    using reader_inv_copy [OF g(2,3)] same_but_buffer_simps(10) [OF g(2)]
    by (simp add: ring_inv_def del: writer_inv.simps)
next
  case (put_wrap s src len f)
  then have "fifo_ok (ring s)" "writer_inv (ring s) (At_put_rest src len)" by (simp_all add: ring_inv_def)
  from put_rest_stage [OF this] obtain g where g: "put_rest (ring s) src len = Some g" "same_but_buffer (ring s) g"
    "contents g = contents (ring s)" "writer_inv g (At_put_done src len)" by blast
  with put_wrap have "g = f" by simp
  with g put_wrap show ?case
    using reader_inv_copy [OF g(2,3)] same_but_buffer_simps(10) [OF g(2)]
    by (simp add: ring_inv_def del: writer_inv.simps)
next
  case (put_advance s src len)
  then have "fifo_ok (ring s)" "unat len \<le> ring_size (ring s) - used (ring s)"
    "written_bytes (ring s) (unat len) = take (unat len) src"
    by (simp_all add: ring_inv_def room_def)
  with put_done_contents [OF this(1,2)] put_advance show ?case
    by (simp add: ring_inv_def reader_inv_put_done)
next
  case (get_sample s len dst)
  then show ?case by (simp add: ring_inv_def get_len_nat)
next
  case (get_copy s dst len d)
  then have "fifo_ok (ring s)" "reader_inv (ring s) (At_get_first dst len)" by (simp_all add: ring_inv_def)
  from get_first_stage [OF this] obtain e where "get_first (ring s) dst len = Some e"
    "reader_inv (ring s) (At_get_rest e len)" by blast
  with get_copy show ?case by (simp add: ring_inv_def del: reader_inv.simps)
next
  case (get_wrap s dst len d)
  then have "fifo_ok (ring s)" "reader_inv (ring s) (At_get_rest dst len)" by (simp_all add: ring_inv_def)
  from get_rest_stage [OF this] obtain e where "get_rest (ring s) dst len = Some e"
    "reader_inv (ring s) (At_get_done e len)" by blast
  with get_wrap show ?case by (simp add: ring_inv_def del: reader_inv.simps)
next
  case (get_advance s dst len)
  then have "fifo_ok (ring s)" "unat len \<le> used (ring s)"
    "take (unat len) dst = take (unat len) (contents (ring s))"
    by (simp_all add: ring_inv_def)
  with get_done_contents [OF this(1,2)] get_advance show ?case
    by (simp add: ring_inv_def writer_inv_get_done)
qed

lemma ring_inv_reachable: "ring_step\<^sup>*\<^sup>* s t \<Longrightarrow> ring_inv s \<Longrightarrow> ring_inv t"
  by (induction rule: rtranclp_induct) (auto intro: ring_inv_step)

lemma ring_inv_start: "fifo_ok f \<Longrightarrow> ring_inv (ring_start f)"
  by (simp add: ring_inv_def ring_start_def)

lemma ring_inv_enabled: "ring_inv s \<Longrightarrow> writer_enabled s \<and> reader_enabled s"
proof
  assume i: "ring_inv s"
  then have ok: "fifo_ok (ring s)" and w: "writer_inv (ring s) (writer s)" and r: "reader_inv (ring s) (reader s)"
    by (simp_all add: ring_inv_def)
  show "writer_enabled s"
  proof (cases "writer s")
    case (At_put_first src len)
    with w put_first_stage [OF ok, of src len] show ?thesis by (auto simp: writer_enabled_def)
  next
    case (At_put_rest src len)
    with w put_rest_stage [OF ok, of src len] show ?thesis by (auto simp: writer_enabled_def)
  qed (simp_all add: writer_enabled_def)
  show "reader_enabled s"
  proof (cases "reader s")
    case (At_get_first dst len)
    with r get_first_stage [OF ok, of dst len] show ?thesis by (auto simp: reader_enabled_def)
  next
    case (At_get_rest dst len)
    with r get_rest_stage [OF ok, of dst len] show ?thesis by (auto simp: reader_enabled_def)
  qed (simp_all add: reader_enabled_def)
qed

section \<open>The calls are runs of these steps\<close>

lemma ring_steps_trans [trans]: "ring_step\<^sup>*\<^sup>* a b \<Longrightarrow> ring_step b c \<Longrightarrow> ring_step\<^sup>*\<^sup>* a c"
  by (rule rtranclp.rtrancl_into_rtrancl)

lemma raw_put_steps:
  assumes "writer s = Putting_none" "unat len \<le> length src" "raw_kfifo_put (ring s) src len = Inr (n, g)"
  shows "ring_step\<^sup>*\<^sup>* s (s\<lparr>ring := g, sent := sent s @ take (unat n) src\<rparr>)"
proof -
  obtain f1 f2 where f: "n = put_len (ring s) len" "put_first (ring s) src n = Some f1" "put_rest f1 src n = Some f2"
    "g = put_done f2 n"
    using assms(3) by (auto simp: raw_kfifo_put_def Let_def split: option.splits)
  have "ring_step\<^sup>*\<^sup>* s (s\<lparr>writer := At_put_first src n\<rparr>)"
    unfolding f(1) by (rule r_into_rtranclp, rule put_sample [OF assms(1,2)])
  also have "ring_step \<dots> (s\<lparr>ring := f1, writer := At_put_rest src n\<rparr>)"
    using put_copy [of "s\<lparr>writer := At_put_first src n\<rparr>" src n f1] f by simp
  also have "ring_step \<dots> (s\<lparr>ring := f2, writer := At_put_done src n\<rparr>)"
    using put_wrap [of "s\<lparr>ring := f1, writer := At_put_rest src n\<rparr>" src n f2] f by simp
  also have "ring_step \<dots> (s\<lparr>ring := g, writer := Putting_none, sent := sent s @ take (unat n) src\<rparr>)"
    using put_advance [of "s\<lparr>ring := f2, writer := At_put_done src n\<rparr>" src n] f by simp
  finally have "ring_step\<^sup>*\<^sup>* s (s\<lparr>ring := g, writer := Putting_none, sent := sent s @ take (unat n) src\<rparr>)" .
  moreover have "s\<lparr>ring := g, writer := Putting_none, sent := sent s @ take (unat n) src\<rparr> =
      s\<lparr>ring := g, sent := sent s @ take (unat n) src\<rparr>"
    using assms(1) by (cases s) simp
  ultimately show ?thesis by simp
qed

lemma raw_get_steps:
  assumes "reader s = Getting_none" "unat len \<le> length dst" "raw_kfifo_get (ring s) dst len = Inr ((n, d), g)"
  shows "ring_step\<^sup>*\<^sup>* s (s\<lparr>ring := g, received := received s @ take (unat n) d\<rparr>)"
proof -
  obtain d1 where f: "n = get_len (ring s) len" "get_first (ring s) dst n = Some d1" "get_rest (ring s) d1 n = Some d"
    "g = get_done (ring s) n"
    using assms(3) by (auto simp: raw_kfifo_get_def Let_def split: option.splits)
  have "ring_step\<^sup>*\<^sup>* s (s\<lparr>reader := At_get_first dst n\<rparr>)"
    unfolding f(1) by (rule r_into_rtranclp, rule get_sample [OF assms(1,2)])
  also have "ring_step \<dots> (s\<lparr>reader := At_get_rest d1 n\<rparr>)"
    using get_copy [of "s\<lparr>reader := At_get_first dst n\<rparr>" dst n d1] f by simp
  also have "ring_step \<dots> (s\<lparr>reader := At_get_done d n\<rparr>)"
    using get_wrap [of "s\<lparr>reader := At_get_rest d1 n\<rparr>" d1 n d] f by simp
  also have "ring_step \<dots> (s\<lparr>ring := g, reader := Getting_none, received := received s @ take (unat n) d\<rparr>)"
    using get_advance [of "s\<lparr>reader := At_get_done d n\<rparr>" d n] f by simp
  finally have "ring_step\<^sup>*\<^sup>* s (s\<lparr>ring := g, reader := Getting_none, received := received s @ take (unat n) d\<rparr>)" .
  moreover have "s\<lparr>ring := g, reader := Getting_none, received := received s @ take (unat n) d\<rparr> =
      s\<lparr>ring := g, received := received s @ take (unat n) d\<rparr>"
    using assms(1) by (cases s) simp
  ultimately show ?thesis by simp
qed

section \<open>Properties\<close>

text \<open>
  C13: one writer and one reader need no lock.  However their stages interleave, the bytes the reader has received
  followed by the queued ones are exactly the bytes the writer has sent, in order; the queue
  never holds more than its size, and no copy of either side ever leaves a block, so each side can always
  take its next step.
\<close>

theorem kfifo_lockless:
  assumes "fifo_ok f" "ring_step\<^sup>*\<^sup>* (ring_start f) s"
  shows "sent s = received s @ contents (ring s) \<and> length (contents (ring s)) \<le> ring_size (ring s) \<and>
    writer_enabled s \<and> reader_enabled s"
proof -
  have "ring_inv s" using ring_inv_reachable [OF assms(2) ring_inv_start [OF assms(1)]] .
  then show ?thesis using ring_inv_enabled [of s] by (simp add: ring_inv_def used_le)
qed

text \<open>A reader that samples the queue before the writer advances, and finishes after.\<close>

theorem kfifo_lockless_witness:
  "\<exists>s. ring_step\<^sup>*\<^sup>* (ring_start wrapped) s \<and> writer s = At_put_rest [7, 8, 9] 2 \<and> reader s = At_get_first [0, 0, 0] 2 \<and>
     sent s = [4, 1] \<and> sent s = received s @ contents (ring s) \<and> writer_enabled s \<and> reader_enabled s"
proof -
  define s0 where "s0 = ring_start wrapped"
  define s1 where "s1 = s0\<lparr>writer := At_put_first [7, 8, 9] 2\<rparr>"
  define s2 where "s2 = s1\<lparr>reader := At_get_first [0, 0, 0] 2\<rparr>"
  obtain g where g: "put_first wrapped [7, 8, 9] 2 = Some g"
    using put_first_slots [of wrapped 2 "[7, 8, 9]"] wrapped_eval(1) by (auto simp: kfifo_ok_def)
  define s3 where "s3 = s2\<lparr>ring := g, writer := At_put_rest [7, 8, 9] 2\<rparr>"
  have len: "put_len wrapped 3 = 2" "get_len wrapped 3 = 2" by code_simp+
  have "ring_step\<^sup>*\<^sup>* s0 s1"
    using put_sample [of s0 3 "[7, 8, 9]"] by (intro r_into_rtranclp) (simp add: s0_def s1_def ring_start_def len)
  also have "ring_step s1 s2"
    using get_sample [of s1 3 "[0, 0, 0]"] by (simp add: s0_def s1_def s2_def ring_start_def len)
  also have "ring_step s2 s3"
    using put_copy [of s2 "[7, 8, 9]" 2 g] g by (simp add: s0_def s1_def s2_def s3_def ring_start_def)
  finally have "ring_step\<^sup>*\<^sup>* s0 s3" .
  moreover have "fifo_ok wrapped" using wrapped_eval(1) by (simp add: kfifo_ok_def)
  ultimately have "sent s3 = received s3 @ contents (ring s3) \<and> length (contents (ring s3)) \<le> ring_size (ring s3) \<and>
      writer_enabled s3 \<and> reader_enabled s3"
    unfolding s0_def by (rule kfifo_lockless [rotated])
  moreover have "writer s3 = At_put_rest [7, 8, 9] 2" "reader s3 = At_get_first [0, 0, 0] 2" "sent s3 = [4, 1]"
    by (simp_all add: s0_def s1_def s2_def s3_def ring_start_def wrapped_eval)
  ultimately show ?thesis using \<open>ring_step\<^sup>*\<^sup>* s0 s3\<close> by (auto simp: s0_def)
qed

end
