(* ===== verification/Spec2Isabelle.thy ===== *)
theory Spec2Isabelle
  imports CRC16 Packet Commands Frames PacketQueue TCPPort SerialPort Config ConfigCgi Modem Agent Negotiation Protocol DebugLog
    DataTask ControlTask DeviceAgent Sharing Delivery Threads KernelCrc Kfifo KfifoConcurrent
begin

text \<open>
  This is the verification of the device agent: the program that runs on a small Linux board beside a
  monitoring post, reads the records of the post over a serial line, keeps them in a queue and delivers them to a
  server over a satellite modem.  The sources of the agent are in src/device-agent/src, its configuration page is
  src/config/src/config.cpp, and src/os holds the Linux kernel of the board.

  \<^bold>\<open>The program.\<close>  The supervising process (\<open>main\<close>, device-agent.cpp) forks a working process and orders a reboot when that
  ends.  The working process sets the objects up from \<open>agent.conf\<close> (Config.cpp), follows the clock of the post, starts
  three threads and waits for the power-off key:

  \<^item> the reading thread (\<open>DataTask::doReadData\<close>) asks the post for its current record and its status at reserved times and
    pushes them to two queues (PacketQueue.cpp);
  \<^item> the sending thread (\<open>DataTask::doProcess\<close>) negotiates a data channel with the server, sends the records and status
    reports, and removes a record when the server acknowledged it;
  \<^item> the control thread (\<open>ControlTask::doProcess\<close>) switches the modem (Modem.cpp), negotiates a control channel and
    carries out the commands of the server, a request for history records among them.

  All three work through one \<open>Protocol\<close> object (Protocol.cpp), which speaks in frames (Packet.cpp, with the checksum of
  CRC16.cpp) over channels (Channel.h): a serial port and TCP ports.  On power-off the queue is saved to a file and the next
  working process loads it.

  \<^bold>\<open>How code becomes definitions.\<close>  A C++ method is a definition with the name of the method, prefixed by its class where two
  classes share the name.  An object is a record with the names of its members.  A pure method is a function; where it can
  leave a buffer its result is an option and \<open>None\<close> is that undefined case.  A method that changes state or calls the
  operating system is a \<open>prog\<close> of theory Prelude: it returns a value (\<open>Val\<close>), throws a \<open>ChannelException\<close>
  (\<open>Throw\<close>), runs into undefined behaviour (\<open>Undef\<close>) or is still waiting when the observed behaviour of the environment ends
  (\<open>Pending\<close>).  The environment is the \<open>world\<close> of theory Posix: a script of replies, one per call that can block or whose
  result is used, a trace of everything the agent did, and the files.  A reply also carries the updates other threads made
  while the call was blocked.  Every theorem is for all scripts.

  \<^bold>\<open>The theories\<close>, from the bottom up.

  \<^item> Prelude: byte fields, substring search, programs, loops, and the calculi \<open>hoare\<close>, \<open>moves\<close>, \<open>no_throw\<close> and \<open>no_undef\<close> whose
    rules the collections \<open>hoare_rules\<close> and \<open>safe_rules\<close> hold.
  \<^item> CRC16 (CRC16.cpp): the table and both overloads of \<open>crc16\<close>; equality with bit-serial division, and that every change within
    two adjacent bytes is detected.
  \<^item> Posix: the environment, and what every run does to it (replies are consumed, the trace grows).
  \<^item> Channel (Channel.h): the virtual methods as a record and the locale \<open>channel\<close> with their contract, in which the frame layer
    is verified; SerialPort, TCPPort and Agent interpret it.
  \<^item> Packet, Commands, Frames (Packet.cpp, CommunicationCommand.cpp, HistoryDataRequestCmd.h, MPHealthCheckCmdPacket.cpp): building,
    checking, receiving and reading frames.  A received frame is valid whatever the channel does; damage is detected; the
    receiver resynchronises on the first valid suffix; what is built is read back; the accessors read the fields of the
    declared structures, whose layout Frames computes.
  \<^item> PacketQueue (PacketQueue.cpp): the queue, the locale \<open>packet_fifo\<close> with its contract and its interpretation \<open>dq\<close>; the file
    copy is read back, also after a crash in the middle of \<open>Save\<close> and on arbitrary file contents.
  \<^item> TCPPort, SerialPort (TCPPort.cpp, SerialPort.cpp): the methods on system calls; the state of the connection, the terminal
    settings, and that a frame on the line is received.
  \<^item> Config, ConfigCgi (Config.cpp, src/config/src/config.cpp): reading and writing \<open>agent.conf\<close>; decoding of a posted form;
    what the page saves is what the agent reads.
  \<^item> Modem (Modem.cpp): AT commands, signal level, power on and off.
  \<^item> Agent, Negotiation, Protocol (Protocol.h, Protocol.cpp): the shared state with the interference of the other threads, the
    negotiation of channels and timers, and the dialogues with the post and the server, with their results and their ends.
  \<^item> DebugLog (DebugLog.cpp): the lines of the log and the number of the dump.
  \<^item> DataTask, ControlTask, DeviceAgent (the files of the same names): each thread as its start and the body of its endless loop,
    and both processes.
  \<^item> Sharing: the locales \<open>soft_steps\<close>, \<open>tolerant\<close> and \<open>thread_steps\<close>.  They list what a relation between states has to contain to
    be kept by every operation of the agent, and prove it operation by operation, once.
  \<^item> Delivery: interprets \<open>tolerant\<close> for the relation that keeps queued records and \<open>filtered_channel\<close> for the bytes a channel can
    have delivered.  A record without an acknowledgement stays queued; a server that acknowledges gets every record once and in order.
  \<^item> Threads: interprets the locales for the invariant of the shared state; \<open>thread_step\<close> and \<open>reachable\<close> are the rounds of the three threads in
    any order.  The invariant holds throughout and no exception ends a thread.
  \<^item> KernelCrc (lib/crc-ccitt.c, crc16.c, crc-itu-t.c, crc-t10dif.c and crc7.c of the kernel): the locales \<open>down_crc\<close> and \<open>up_crc\<close> hold the argument
    that a table does the work of eight bit steps; \<open>crc_ccitt\<close> is the checksum of the agent.
  \<^item> Kfifo, KfifoConcurrent (kernel/kfifo.c and its headers): the byte ring with 32-bit indices that wrap, as a refinement of a bounded
    queue (locale \<open>bounded_queue\<close>, interpreted for the locked and for the bare operations), its allocation, and the interleaving of
    one writer with one reader without a lock.

  \<^bold>\<open>Bounds.\<close>  A loop of the code is \<open>loop \<mu> body x\<close>, which runs \<open>body\<close> at most \<open>\<mu> s + 1\<close> times.  The bound \<open>\<mu>\<close> is what is left of the
  environment: \<open>left\<close> counts the replies, the updates of other threads they carry and the bytes received but not read,
  \<open>aleft\<close> adds the queued packets, and \<open>pleft\<close> is the same for the port a packet is read from.  A round that goes on has consumed some of
  it, so the bound is never the reason a loop ends (\<open>loop_unfold\<close>, \<open>loop_consumes\<close>).  The loops that may go round without
  consuming have a measure of their own: the sending loop makes at most five attempts for a record, hence its bound
  \<open>send_budget\<close>, six times \<open>aleft\<close> and five; the negotiation twenty-four attempts (\<open>negotiation_ends\<close>).
  Theory Protocol shows that more rounds never change an outcome.  The endless loops of the threads are modelled by their bodies, and Threads
  strings any number of rounds together.

  \<^bold>\<open>What is assumed of the target.\<close>  The board is little-endian, with 32-bit \<open>int\<close> and \<open>long\<close>; structures are packed or aligned
  as their declarations say.  A new descriptor is not one of the standard streams.  Interference happens while a thread is inside a
  call that can block; the members it changes there are those the other threads assign.  The methods of the packet queue run
  under its mutex and are one step.

  \<^bold>\<open>Not modelled.\<close>  The text the log macros print while the agent runs (the evaluation of their arguments is, and
  DebugLog models the formatting on its own); the wording of \<open>what()\<close>; the rounding of \<open>float\<close> signal levels, which are exact decimals; a
  time zone other than UTC; preemption between two statements that do not block.  Of the kernel only the checksums
  and the queue are modelled: they are self-contained.  The rest is the operating system under the agent, which the agent reaches
  through the C library only; what it does to the agent is the script of replies.
\<close>

end
